theory Spec2Isabelle
  imports Complex_Main "HOL-Library.Product_Lexorder" "HOL-Library.List_Lexorder"
    "HOL-Library.Char_ord" "HOL-Library.AList"
begin

section \<open>The meeting queue (src/zoom_bot/meeting_queue.py)\<close>

text \<open>
  A point in time (\<open>datetime\<close>) is an integer number of microseconds, the resolution
  of Python's \<open>datetime\<close> and \<open>timedelta\<close>; \<open>minutes n\<close> is \<open>timedelta(minutes=n)\<close>.
  Every \<open>datetime.now()\<close> the source reads is a parameter of the modelled operation.
\<close>

definition minutes :: "int \<Rightarrow> int" where
  "minutes n = n * 60000000"

text \<open>
  A queue entry is the source's tuple \<open>(scheduled_time, meeting_id, url, retry_count)\<close>
  and a meeting-table value its tuple
  \<open>(scheduled_time, url, retry_count, max_retries, is_urgent)\<close>.
  Python compares tuples lexicographically and strings by code point, which is the order
  of the product and list instances imported above.
\<close>

type_synonym entry = "int \<times> int \<times> string \<times> int"

type_synonym meeting = "int \<times> string \<times> int \<times> int \<times> bool"

text \<open>
  The join callback either returns a boolean or raises. It may answer differently on
  each invocation, so it receives the number of invocations made before this one.
\<close>

datatype cb_result = Returned bool | Raised

type_synonym join_callback = "nat \<Rightarrow> int \<Rightarrow> string \<Rightarrow> cb_result"

text \<open>
  The object's mutable fields: \<open>_queue\<close>, \<open>_meetings\<close>, and the list of
  \<open>(meeting_id, url)\<close> pairs the join callback has been invoked with, oldest first
  (the observable effect of \<open>self._join_callback\<close>).
\<close>

record queue_state =
  queue :: "entry list"
  meetings :: "int \<rightharpoonup> meeting"
  calls :: "(int \<times> string) list"

definition init_state :: queue_state where
  "init_state = \<lparr>queue = [], meetings = Map.empty, calls = []\<rparr>"

definition urgent_retry_minutes :: int where
  "urgent_retry_minutes = 3"

definition normal_retry_minutes :: int where
  "normal_retry_minutes = 5"

text \<open>
  \<open>heapq\<close> keeps the entries in a binary heap whose only observable operations here are
  \<open>heappush\<close>, reading \<open>self._queue[0]\<close> (the least entry) and \<open>heappop\<close> (removing it).
  The heap is modelled by the ascending list of its entries: the head is the least entry.
\<close>

definition heappush :: "entry list \<Rightarrow> entry \<Rightarrow> entry list" where
  "heappush q e = insort e q"

definition remove_meeting :: "int \<Rightarrow> queue_state \<Rightarrow> queue_state" where
  "remove_meeting meeting_id s =
     (if meeting_id \<in> dom (meetings s)
      then s\<lparr>meetings := (meetings s)(meeting_id := None)\<rparr>
      else s)"

definition invoke_callback ::
  "join_callback \<Rightarrow> int \<Rightarrow> string \<Rightarrow> queue_state \<Rightarrow> cb_result \<times> queue_state" where
  "invoke_callback cb meeting_id url s =
     (cb (length (calls s)) meeting_id url, s\<lparr>calls := calls s @ [(meeting_id, url)]\<rparr>)"

text \<open>
  \<open>schedule_meeting\<close> returns what the callback returned (or that it raised) on the
  past-time path and \<open>True\<close> otherwise. \<open>now\<close> is the clock read on line 71.
\<close>

definition schedule_meeting ::
  "join_callback \<Rightarrow> int \<Rightarrow> int \<Rightarrow> string \<Rightarrow> int \<Rightarrow> int \<Rightarrow> queue_state
     \<Rightarrow> cb_result \<times> queue_state" where
  "schedule_meeting cb now meeting_id url scheduled_time max_retries s =
     (let s1 = (if meeting_id \<in> dom (meetings s) then remove_meeting meeting_id s else s);
          actual_join_time = scheduled_time + minutes 1
      in if actual_join_time < now
         then invoke_callback cb meeting_id url s1
         else
           let is_urgent = (actual_join_time - now \<le> minutes 15)
           in (Returned True,
               s1\<lparr>meetings := (meetings s1)(meeting_id \<mapsto>
                       (actual_join_time, url, 0, max_retries, is_urgent)),
                   queue := heappush (queue s1) (actual_join_time, meeting_id, url, 0)\<rparr>))"

text \<open>\<open>delay_minutes\<close> is \<open>None\<close> or an integer; \<open>now\<close> is the clock read on line 123.\<close>

definition reschedule_meeting ::
  "int \<Rightarrow> int \<Rightarrow> int option \<Rightarrow> queue_state \<Rightarrow> bool \<times> queue_state" where
  "reschedule_meeting now meeting_id delay_minutes s =
     (case meetings s meeting_id of
        None \<Rightarrow> (False, s)
      | Some (scheduled_time, url, retry_count, max_retries, is_urgent) \<Rightarrow>
          if retry_count \<ge> max_retries then (False, s)
          else
            let delay = (case delay_minutes of
                           None \<Rightarrow> if is_urgent then urgent_retry_minutes
                                   else normal_retry_minutes
                         | Some d \<Rightarrow> d);
                new_time = now + minutes delay;
                new_retry_count = retry_count + 1
            in (True,
                s\<lparr>meetings := (meetings s)(meeting_id \<mapsto>
                        (new_time, url, new_retry_count, max_retries, is_urgent)),
                    queue := heappush (queue s) (new_time, meeting_id, url, new_retry_count)\<rparr>))"

definition cancel_meeting :: "int \<Rightarrow> queue_state \<Rightarrow> bool \<times> queue_state" where
  "cancel_meeting meeting_id s =
     (if meeting_id \<notin> dom (meetings s) then (False, s)
      else (True, remove_meeting meeting_id s))"

text \<open>
  \<open>_join_meeting\<close>: a callback that returns false and one that raises both end in
  \<open>reschedule_meeting\<close> with the urgency-derived delay; \<open>now'\<close> is the clock that call reads.
\<close>

definition join_meeting ::
  "join_callback \<Rightarrow> int \<Rightarrow> int \<Rightarrow> string \<Rightarrow> int \<Rightarrow> int \<Rightarrow> bool \<Rightarrow> queue_state
     \<Rightarrow> queue_state" where
  "join_meeting cb now' meeting_id url retry_count max_retries is_urgent s =
     (case invoke_callback cb meeting_id url s of
        (Returned True, s1) \<Rightarrow> remove_meeting meeting_id s1
      | (_, s1) \<Rightarrow>
          (let delay = (if is_urgent then urgent_retry_minutes else normal_retry_minutes)
           in snd (reschedule_meeting now' meeting_id (Some delay) s1)))"

text \<open>
  \<open>_process_next_meeting\<close>, one iteration of the processor's loop; \<open>now\<close> is the clock
  read on line 188.
\<close>

definition process_next_meeting ::
  "join_callback \<Rightarrow> int \<Rightarrow> int \<Rightarrow> queue_state \<Rightarrow> queue_state" where
  "process_next_meeting cb now now' s =
     (case queue s of
        [] \<Rightarrow> s
      | (next_time, meeting_id, url, retry_count) # rest \<Rightarrow>
          if next_time \<le> now then
            (let s1 = s\<lparr>queue := rest\<rparr>
             in case meetings s1 meeting_id of
                  None \<Rightarrow> s1
                | Some (stored_time, stored_url, stored_retry_count, max_retries, is_urgent) \<Rightarrow>
                    if stored_retry_count \<noteq> retry_count then s1
                    else join_meeting cb now' meeting_id stored_url stored_retry_count
                           max_retries is_urgent s1)
          else s)"

text \<open>
  \<open>check_for_urgent_meetings\<close> visits every item of the table and rewrites only that
  item, so the loop is the same update at every key.
\<close>

definition check_for_urgent_meetings :: "int \<Rightarrow> queue_state \<Rightarrow> queue_state" where
  "check_for_urgent_meetings now s =
     s\<lparr>meetings := (\<lambda>meeting_id.
          case meetings s meeting_id of
            None \<Rightarrow> None
          | Some (scheduled_time, url, retry_count, max_retries, is_urgent) \<Rightarrow>
              if \<not> is_urgent \<and> scheduled_time - now \<le> minutes 15
              then Some (scheduled_time, url, retry_count, max_retries, True)
              else Some (scheduled_time, url, retry_count, max_retries, is_urgent))\<rparr>"

text \<open>
  The lock serialises the public operations and the processor's iterations; a run of the
  object is a list of them, each with the clock values it reads.
\<close>

datatype event =
    Schedule int string int int int
  | Reschedule int "int option" int
  | Cancel int
  | Tick int int
  | CheckUrgent int

fun step :: "join_callback \<Rightarrow> queue_state \<Rightarrow> event \<Rightarrow> queue_state" where
  "step cb s (Schedule meeting_id url scheduled_time max_retries now) =
     snd (schedule_meeting cb now meeting_id url scheduled_time max_retries s)"
| "step cb s (Reschedule meeting_id delay_minutes now) =
     snd (reschedule_meeting now meeting_id delay_minutes s)"
| "step cb s (Cancel meeting_id) = snd (cancel_meeting meeting_id s)"
| "step cb s (Tick now now') = process_next_meeting cb now now' s"
| "step cb s (CheckUrgent now) = check_for_urgent_meetings now s"

definition run :: "join_callback \<Rightarrow> event list \<Rightarrow> queue_state \<Rightarrow> queue_state" where
  "run cb es s = foldl (step cb) s es"

text \<open>
  Vocabulary for the properties below: the id and retry count of a queue entry, the test
  \<open>_process_next_meeting\<close> applies to a popped entry, and classes of events.
\<close>

definition entry_id :: "entry \<Rightarrow> int" where
  "entry_id e = fst (snd e)"

definition entry_retry :: "entry \<Rightarrow> int" where
  "entry_retry e = snd (snd (snd e))"

definition honored :: "queue_state \<Rightarrow> entry \<Rightarrow> bool" where
  "honored s e =
     (case meetings s (entry_id e) of
        None \<Rightarrow> False
      | Some (stored_time, stored_url, stored_retry_count, max_retries, is_urgent) \<Rightarrow>
          stored_retry_count = entry_retry e)"

fun schedules :: "int \<Rightarrow> event \<Rightarrow> bool" where
  "schedules i (Schedule meeting_id url scheduled_time max_retries now) = (meeting_id = i)"
| "schedules i e = False"

fun touches :: "int \<Rightarrow> event \<Rightarrow> bool" where
  "touches i (Schedule meeting_id url scheduled_time max_retries now) = (meeting_id = i)"
| "touches i (Reschedule meeting_id delay_minutes now) = (meeting_id = i)"
| "touches i (Cancel meeting_id) = (meeting_id = i)"
| "touches i e = False"

fun is_tick :: "event \<Rightarrow> bool" where
  "is_tick (Tick now now') = True"
| "is_tick e = False"

fun reschedule_or_check :: "event \<Rightarrow> bool" where
  "reschedule_or_check (Reschedule meeting_id delay_minutes now) = True"
| "reschedule_or_check (CheckUrgent now) = True"
| "reschedule_or_check e = False"

definition fenced :: "int \<Rightarrow> queue_state \<Rightarrow> bool" where
  "fenced i s \<longleftrightarrow>
     (\<forall>r. length (filter (\<lambda>e. entry_id e = i \<and> entry_retry e = r) (queue s)) \<le> 1)
     \<and> (\<forall>t u k m g. meetings s i = Some (t, u, k, m, g) \<longrightarrow>
            (\<forall>e \<in> set (queue s). entry_id e = i \<longrightarrow> entry_retry e \<le> k))"

text \<open>
  The queue entries of a meeting id, the callback invocations made for it, and their
  number.
\<close>

definition entries_of :: "int \<Rightarrow> queue_state \<Rightarrow> entry list" where
  "entries_of i s = filter (\<lambda>e. entry_id e = i) (queue s)"

definition calls_of :: "int \<Rightarrow> queue_state \<Rightarrow> (int \<times> string) list" where
  "calls_of i s = filter (\<lambda>c. fst c = i) (calls s)"

definition attempts :: "int \<Rightarrow> queue_state \<Rightarrow> nat" where
  "attempts i s = length (calls_of i s)"

text \<open>A meeting scheduled in the state \<open>s0\<close>, followed by a run of events.\<close>

definition scheduled_run ::
  "join_callback \<Rightarrow> queue_state \<Rightarrow> int \<Rightarrow> int \<Rightarrow> string \<Rightarrow> int \<Rightarrow> int \<Rightarrow> event list
     \<Rightarrow> queue_state" where
  "scheduled_run cb s0 now meeting_id url scheduled_time max_retries es =
     run cb es (snd (schedule_meeting cb now meeting_id url scheduled_time max_retries s0))"

text \<open>
  The invariant of a meeting whose join attempts all fail: \<open>c0\<close> are the invocations
  made for the id before it was scheduled, \<open>n\<close> those made since.
\<close>

definition exhausting ::
  "int \<Rightarrow> string \<Rightarrow> int \<Rightarrow> (int \<times> string) list \<Rightarrow> queue_state \<Rightarrow> bool" where
  "exhausting i u N c0 s \<longleftrightarrow>
     (\<exists>tm g k n. meetings s i = Some (tm, u, k, N, g) \<and> 0 \<le> k \<and> k \<le> N
        \<and> calls_of i s = c0 @ replicate n (i, u)
        \<and> ((entries_of i s = [(tm, i, u, k)] \<and> int n = k)
            \<or> (entries_of i s = [] \<and> k = N \<and> int n = N + 1)))"

text \<open>
  Two states that agree on everything that concerns one meeting id.
\<close>

definition same_for :: "int \<Rightarrow> queue_state \<Rightarrow> queue_state \<Rightarrow> bool" where
  "same_for i s s' \<longleftrightarrow>
     meetings s' i = meetings s i \<and> entries_of i s' = entries_of i s
     \<and> calls_of i s' = calls_of i s"

section \<open>Emotion frames and segment averages (src/analytics/processor.py)\<close>

text \<open>
  Frames, emotions and transcript segments are Python dictionaries; a key the source
  reads with \<open>.get\<close> may be missing and is an option here. Python floats are modelled
  by real numbers: the properties below are about which frames and segments are chosen
  and which sums and divisors are used, not about rounding. A dictionary from emotion
  names to scores is an association list in insertion order, updated in place as
  Python's \<open>d[k] = v\<close> does (\<open>AList.update\<close>); the key is \<open>None\<close> for an emotion
  without a name.
\<close>

record emotion =
  e_name :: "string option"
  e_score :: "real option"

record frame =
  f_time :: "real option"
  f_emotions :: "emotion list option"

type_synonym emotion_dict = "(string option \<times> real) list"

definition dict_get :: "('k \<times> 'v) list \<Rightarrow> 'k \<Rightarrow> 'v \<Rightarrow> 'v" where
  "dict_get d k dflt = (case map_of d k of None \<Rightarrow> dflt | Some v \<Rightarrow> v)"

definition frame_time :: "frame \<Rightarrow> real" where
  "frame_time f = (case f_time f of None \<Rightarrow> 0 | Some t \<Rightarrow> t)"

definition frame_emotions :: "frame \<Rightarrow> emotion list" where
  "frame_emotions f = (case f_emotions f of None \<Rightarrow> [] | Some es \<Rightarrow> es)"

definition emotion_score :: "emotion \<Rightarrow> real" where
  "emotion_score e = (case e_score e of None \<Rightarrow> 0 | Some x \<Rightarrow> x)"

text \<open>The inner loop of \<open>_average_emotions_for_segment\<close> over one frame's emotions.\<close>

fun add_emotions :: "emotion_dict \<Rightarrow> emotion list \<Rightarrow> emotion_dict" where
  "add_emotions emotion_totals [] = emotion_totals"
| "add_emotions emotion_totals (e # es) =
     add_emotions
       (AList.update (e_name e) (dict_get emotion_totals (e_name e) 0 + emotion_score e)
          emotion_totals) es"

text \<open>The outer loop over the selected frames, carrying \<open>emotion_totals\<close> and \<open>count\<close>.\<close>

fun add_frames :: "emotion_dict \<times> nat \<Rightarrow> frame list \<Rightarrow> emotion_dict \<times> nat" where
  "add_frames (emotion_totals, count) [] = (emotion_totals, count)"
| "add_frames (emotion_totals, count) (f # fs) =
     add_frames (add_emotions emotion_totals (frame_emotions f), count + 1) fs"

definition average_emotions_for_segment :: "frame list \<Rightarrow> real \<Rightarrow> real \<Rightarrow> emotion_dict" where
  "average_emotions_for_segment frames start_time end_time =
     (let selected = filter (\<lambda>f. start_time \<le> frame_time f \<and> frame_time f \<le> end_time) frames
      in if selected = [] then []
         else case add_frames ([], 0) selected of
                (emotion_totals, count) \<Rightarrow>
                  map (\<lambda>(name, total). (name, total / real count)) emotion_totals)"

section \<open>Question and answer pairs (src/analytics/processor.py)\<close>

text \<open>
  Text is a list of characters; the transcript is taken to be ASCII, so \<open>lower\<close> and
  \<open>strip\<close> act on ASCII letters and on the ASCII characters Python counts as
  whitespace.
\<close>

definition is_space :: "char \<Rightarrow> bool" where
  "is_space c \<longleftrightarrow> of_char c \<in> {9, 10, 11, 12, 13, 28, 29, 30, 31, 32 :: nat}"

definition is_digit :: "char \<Rightarrow> bool" where
  "is_digit c \<longleftrightarrow> (48 :: nat) \<le> of_char c \<and> of_char c \<le> (57 :: nat)"

definition strip :: "string \<Rightarrow> string" where
  "strip s = rev (dropWhile is_space (rev (dropWhile is_space s)))"

definition lower_char :: "char \<Rightarrow> char" where
  "lower_char c =
     (if (65 :: nat) \<le> of_char c \<and> of_char c \<le> (90 :: nat)
      then char_of (of_char c + (32 :: nat)) else c)"

definition lower :: "string \<Rightarrow> string" where
  "lower s = map lower_char s"

text \<open>\<open>s.split(c)\<close> for a one-character separator: it always returns at least one part.\<close>

fun split_on :: "char \<Rightarrow> string \<Rightarrow> string list" where
  "split_on c [] = [[]]"
| "split_on c (x # xs) =
     (case split_on c xs of
        [] \<Rightarrow> [[x]]
      | part # parts \<Rightarrow> if x = c then [] # part # parts else (x # part) # parts)"

text \<open>
  \<open>strip_prefix p s\<close> is the rest of \<open>s\<close> after the literal \<open>p\<close> when \<open>s\<close> starts
  with it; \<open>find_literal p s\<close> splits \<open>s\<close> at the first occurrence of \<open>p\<close>;
  \<open>contains p s\<close> is Python's \<open>p in s\<close>.
\<close>

fun strip_prefix :: "string \<Rightarrow> string \<Rightarrow> string option" where
  "strip_prefix [] s = Some s"
| "strip_prefix (p # ps) [] = None"
| "strip_prefix (p # ps) (c # cs) = (if p = c then strip_prefix ps cs else None)"

fun find_literal :: "string \<Rightarrow> string \<Rightarrow> (string \<times> string) option" where
  "find_literal p [] = (if p = [] then Some ([], []) else None)"
| "find_literal p (c # cs) =
     (case strip_prefix p (c # cs) of
        Some rest \<Rightarrow> Some ([], rest)
      | None \<Rightarrow> (case find_literal p cs of
                   None \<Rightarrow> None
                 | Some (before, rest) \<Rightarrow> Some (c # before, rest)))"

definition contains :: "string \<Rightarrow> string \<Rightarrow> bool" where
  "contains p s \<longleftrightarrow> find_literal p s \<noteq> None"

text \<open>
  \<open>int(s)\<close> on a string: surrounding whitespace and one sign are allowed, then digits,
  with single underscores between digits; anything else raises \<open>ValueError\<close> (\<open>None\<close>).
  The whitespace \<open>int\<close> skips in ASCII text is tab, line feed, vertical tab, form feed,
  carriage return and space; unlike \<open>strip\<close> it does not skip the separators
  0x1C to 0x1F.
\<close>

definition is_int_space :: "char \<Rightarrow> bool" where
  "is_int_space c \<longleftrightarrow> of_char c \<in> {9, 10, 11, 12, 13, 32 :: nat}"

fun digits_value :: "int \<Rightarrow> string \<Rightarrow> int" where
  "digits_value acc [] = acc"
| "digits_value acc (c # cs) = digits_value (acc * 10 + (int (of_char c) - 48)) cs"

fun valid_digits :: "string \<Rightarrow> bool" where
  "valid_digits [] = False"
| "valid_digits [c] = is_digit c"
| "valid_digits (c # d # cs) =
     (is_digit c \<and> (if d = CHR ''_'' then valid_digits cs else valid_digits (d # cs)))"

definition py_int :: "string \<Rightarrow> int option" where
  "py_int s =
     (let t = rev (dropWhile is_int_space (rev (dropWhile is_int_space s)));
          negative = (t \<noteq> [] \<and> hd t = CHR ''-'');
          body = (if t \<noteq> [] \<and> (hd t = CHR ''-'' \<or> hd t = CHR ''+'') then tl t else t)
      in if valid_digits body
         then Some ((if negative then - 1 else 1)
                    * digits_value 0 (filter (\<lambda>c. c \<noteq> CHR ''_'') body))
         else None)"

record question =
  q_timestamp :: string
  q_time_seconds :: int
  q_text :: string
  q_index :: nat

text \<open>
  The conversion of a timestamp to seconds: \<open>minutes, seconds = timestamp.split(':')\<close>
  needs exactly two parts, and every failure is caught and gives 0.
\<close>

definition timestamp_seconds :: "string \<Rightarrow> int" where
  "timestamp_seconds timestamp =
     (case split_on CHR '':'' timestamp of
        [minutes_str, seconds_str] \<Rightarrow>
          (case (py_int minutes_str, py_int seconds_str) of
             (Some m, Some s) \<Rightarrow> m * 60 + s
           | _ \<Rightarrow> 0)
      | _ \<Rightarrow> 0)"

definition question_indicators :: "string list" where
  "question_indicators =
     [''tell me about'', ''what is'', ''how would'', ''describe'',
      ''explain'', ''can you'', ''do you'', ''have you'']"

definition irrelevant_patterns :: "string list" where
  "irrelevant_patterns =
     [''how are you'', ''nice to meet'', ''your name'', ''introduce yourself'',
      ''weather'', ''doing today'', ''go for it'', ''pan'', ''testing'', ''hear me'',
      ''can you see'', ''technical'', ''connection'']"

text \<open>
  The body of the first loop for line number \<open>i\<close>: the list of the question appended
  for this line (empty on \<open>continue\<close> and when the line is not a question).
\<close>

definition line_question :: "nat \<Rightarrow> string \<Rightarrow> question list" where
  "line_question i line =
     (if CHR ''|'' \<notin> set line then []
      else
        let part0 = takeWhile (\<lambda>c. c \<noteq> CHR ''|'') line;
            part1 = tl (dropWhile (\<lambda>c. c \<noteq> CHR ''|'') line);
            speaker = hd (split_on CHR 0x0A (strip part1));
            text = strip part1
        in if contains ''Daniel Kraft'' speaker then []
           else
             let is_question = (CHR ''?'' \<in> set text
                                \<or> list_ex (\<lambda>q. contains q (lower text)) question_indicators)
             in if is_question
                then
                  let timestamp = (if strip part0 \<noteq> [] then strip part0 else ''00:00'')
                  in [\<lparr>q_timestamp = timestamp, q_time_seconds = timestamp_seconds timestamp,
                       q_text = text, q_index = i\<rparr>]
                else [])"

definition candidate_questions :: "string \<Rightarrow> question list" where
  "candidate_questions full_transcript =
     (let transcript_lines = split_on CHR 0x0A full_transcript
      in concat (map (\<lambda>(i, line). line_question i line)
                   (zip [0..<length transcript_lines] transcript_lines)))"

definition relevant_questions :: "question list \<Rightarrow> question list" where
  "relevant_questions questions =
     filter (\<lambda>q. \<not> list_ex (\<lambda>pattern. contains pattern (lower (q_text q))) irrelevant_patterns)
       questions"

text \<open>
  A segment's \<open>start\<close> is a Python number, an \<open>int\<close> or a \<open>float\<close>, and the source
  treats the two differently.
\<close>

datatype pynum = PyInt int | PyFloat real

record segment =
  s_transcript :: string
  s_start :: pynum
  s_end :: real
  s_avg_emotions :: "emotion_dict option"

record qa_pair =
  question :: string
  question_timestamp :: string
  response :: segment
  all_response_segments :: "segment list"

text \<open>
  Lines 788 to 792: a float below 1000 is taken as seconds, every other number is
  divided by 1000.
\<close>

definition start_seconds :: "pynum \<Rightarrow> real" where
  "start_seconds seg_start =
     (case seg_start of
        PyFloat v \<Rightarrow> if v < 1000 then v else v / 1000
      | PyInt n \<Rightarrow> real_of_int n / 1000)"

text \<open>
  Python's \<open>max(xs, key=k)\<close> on a non-empty list keeps the first element and replaces
  it only by a strictly greater one.
\<close>

fun max_by_from :: "('a \<Rightarrow> real) \<Rightarrow> 'a \<Rightarrow> 'a list \<Rightarrow> 'a" where
  "max_by_from key best [] = best"
| "max_by_from key best (x # xs) = max_by_from key (if key best < key x then x else best) xs"

text \<open>The key of line 802: the largest averaged score, 0 for a missing or empty mapping.\<close>

definition emotional_strength :: "segment \<Rightarrow> real" where
  "emotional_strength s =
     (case s_avg_emotions s of
        None \<Rightarrow> 0
      | Some [] \<Rightarrow> 0
      | Some (p # ps) \<Rightarrow> max_by_from (\<lambda>v. v) (snd p) (map snd ps))"

text \<open>
  The body of the last loop for question number \<open>i\<close>; \<open>end_time\<close> is \<open>None\<close> for
  \<open>float('inf')\<close>.
\<close>

definition pairs_for_question :: "question list \<Rightarrow> segment list \<Rightarrow> nat \<Rightarrow> qa_pair list" where
  "pairs_for_question qs transcript_with_emotions i =
     (let start_time = q_time_seconds (qs ! i);
          end_time = (if int i < int (length qs) - 1
                      then Some (q_time_seconds (qs ! (i + 1))) else None);
          response_segments =
            filter (\<lambda>segment.
                let seg_start = start_seconds (s_start segment)
                in real_of_int start_time \<le> seg_start
                   \<and> (case end_time of None \<Rightarrow> True | Some e \<Rightarrow> seg_start < real_of_int e))
              transcript_with_emotions
      in case response_segments of
           [] \<Rightarrow> []
         | r # rs \<Rightarrow>
             [\<lparr>question = q_text (qs ! i), question_timestamp = q_timestamp (qs ! i),
               response = max_by_from emotional_strength r rs,
               all_response_segments = response_segments\<rparr>])"

definition match_questions :: "question list \<Rightarrow> segment list \<Rightarrow> qa_pair list" where
  "match_questions qs transcript_with_emotions =
     concat (map (pairs_for_question qs transcript_with_emotions) [0..<length qs])"

definition filter_relevant_questions :: "segment list \<Rightarrow> string \<Rightarrow> qa_pair list" where
  "filter_relevant_questions transcript_with_emotions full_transcript =
     match_questions (relevant_questions (candidate_questions full_transcript))
       transcript_with_emotions"


section \<open>Frame extraction (src/analytics/processor.py)\<close>

text \<open>
  \<open>_extract_emotion_frames_from_raw\<close> scans the raw text with two regular expressions.
  Each is matched here by a function that tries the pattern at the start of a string and
  returns the captured groups and the text after the match.

  The frame pattern is
  \<^verbatim>\<open>FacePrediction\(frame=\d+,\s*time=([0-9.]+).*?emotions=\[(.*?)\]\<close> with
  \<open>re.DOTALL\<close>. After the literal come the longest run of digits (a shorter run would
  be followed by a digit, not by the comma), the comma, the longest run of whitespace,
  \<open>time=\<close>, and the longest run of digits and dots (a shorter run leaves the same
  occurrences of \<open>emotions=[\<close> to find, since none can start inside the run). The
  lazy \<open>.*?\<close> stops at the first \<open>emotions=[\<close>, and the lazy group at the first
  \<open>]\<close> after it (if there is no \<open>]\<close> after the first occurrence there is none
  after a later one).
\<close>

definition is_time_char :: "char \<Rightarrow> bool" where
  "is_time_char c \<longleftrightarrow> is_digit c \<or> c = CHR ''.''"

definition is_quote :: "char \<Rightarrow> bool" where
  "is_quote c \<longleftrightarrow> c = CHR 0x27 \<or> c = CHR 0x22"

definition match_face :: "string \<Rightarrow> (string \<times> string \<times> string) option" where
  "match_face s =
     (case strip_prefix ''FacePrediction(frame='' s of
        None \<Rightarrow> None
      | Some s1 \<Rightarrow>
          (if takeWhile is_digit s1 = [] then None
           else (case strip_prefix '','' (dropWhile is_digit s1) of
             None \<Rightarrow> None
           | Some s2 \<Rightarrow>
               (case strip_prefix ''time='' (dropWhile is_space s2) of
                  None \<Rightarrow> None
                | Some s3 \<Rightarrow>
                    (if takeWhile is_time_char s3 = [] then None
                     else (case find_literal ''emotions=['' (dropWhile is_time_char s3) of
                       None \<Rightarrow> None
                     | Some (skipped, s4) \<Rightarrow>
                         (case find_literal '']'' s4 of
                            None \<Rightarrow> None
                          | Some (emotions_str, rest) \<Rightarrow>
                              Some (takeWhile is_time_char s3, emotions_str, rest))))))))"

text \<open>
  The emotion pattern is
  \<^verbatim>\<open>EmotionScore\(name=['\"]([^'\"]+)['\"],\s*score=([0-9.]+)\<close>: a quote, the longest
  non-empty run of characters that are not quotes (what follows it is a quote or the end
  of the text), a quote, the comma, whitespace, \<open>score=\<close> and the longest run of
  digits and dots.
\<close>

definition match_emotion :: "string \<Rightarrow> (string \<times> string \<times> string) option" where
  "match_emotion s =
     (case strip_prefix ''EmotionScore(name='' s of
        None \<Rightarrow> None
      | Some s1 \<Rightarrow>
          (case s1 of
             [] \<Rightarrow> None
           | q # s2 \<Rightarrow>
               (if \<not> is_quote q \<or> takeWhile (\<lambda>c. \<not> is_quote c) s2 = [] then None
                else (case dropWhile (\<lambda>c. \<not> is_quote c) s2 of
                  [] \<Rightarrow> None
                | q' # s3 \<Rightarrow>
                    (case strip_prefix '','' s3 of
                       None \<Rightarrow> None
                     | Some s4 \<Rightarrow>
                         (case strip_prefix ''score='' (dropWhile is_space s4) of
                            None \<Rightarrow> None
                          | Some s5 \<Rightarrow>
                              (if takeWhile is_time_char s5 = [] then None
                               else Some (takeWhile (\<lambda>c. \<not> is_quote c) s2,
                                          takeWhile is_time_char s5,
                                          dropWhile is_time_char s5))))))))"

lemma strip_prefix_Some: "strip_prefix p s = Some r \<Longrightarrow> s = p @ r"
  by (induction p s rule: strip_prefix.induct) (auto split: if_splits)

lemma find_literal_Some: "find_literal p s = Some (b, r) \<Longrightarrow> s = b @ p @ r"
proof (induction s arbitrary: b)
  case Nil
  then show ?case by (auto split: if_splits)
next
  case (Cons c cs)
  then show ?case
    by (auto split: option.splits dest: strip_prefix_Some)
qed

lemma match_face_shorter:
  assumes "match_face s = Some (t, e, rest)"
  shows "length rest < length s"
proof -
  from assms obtain s1 s2 s3 skipped s4 where
    1: "strip_prefix ''FacePrediction(frame='' s = Some s1"
    and 2: "strip_prefix '','' (dropWhile is_digit s1) = Some s2"
    and 3: "strip_prefix ''time='' (dropWhile is_space s2) = Some s3"
    and 4: "find_literal ''emotions=['' (dropWhile is_time_char s3) = Some (skipped, s4)"
    and 5: "find_literal '']'' s4 = Some (e, rest)"
    unfolding match_face_def by (auto split: option.splits if_splits)
  have "length rest \<le> length s4"
    using find_literal_Some [OF 5] by simp
  also have "\<dots> \<le> length (dropWhile is_time_char s3)"
    using find_literal_Some [OF 4] by simp
  also have "\<dots> \<le> length s3"
    by (rule length_dropWhile_le)
  also have "\<dots> \<le> length (dropWhile is_space s2)"
    using strip_prefix_Some [OF 3] by simp
  also have "\<dots> \<le> length s2"
    by (rule length_dropWhile_le)
  also have "\<dots> \<le> length (dropWhile is_digit s1)"
    using strip_prefix_Some [OF 2] by simp
  also have "\<dots> \<le> length s1"
    by (rule length_dropWhile_le)
  also have "\<dots> < length s"
    using strip_prefix_Some [OF 1] by simp
  finally show ?thesis .
qed

lemma match_emotion_shorter:
  assumes "match_emotion s = Some (n, v, rest)"
  shows "length rest < length s"
proof -
  from assms obtain s1 q s2 q' s3 s4 s5 where
    1: "strip_prefix ''EmotionScore(name='' s = Some s1"
    and 2: "s1 = q # s2"
    and 3: "dropWhile (\<lambda>c. \<not> is_quote c) s2 = q' # s3"
    and 4: "strip_prefix '','' s3 = Some s4"
    and 5: "strip_prefix ''score='' (dropWhile is_space s4) = Some s5"
    and 6: "rest = dropWhile is_time_char s5"
    unfolding match_emotion_def by (auto split: option.splits if_splits list.splits)
  have "length rest \<le> length s5"
    unfolding 6 by (rule length_dropWhile_le)
  also have "\<dots> \<le> length (dropWhile is_space s4)"
    using strip_prefix_Some [OF 5] by simp
  also have "\<dots> \<le> length s4"
    by (rule length_dropWhile_le)
  also have "\<dots> \<le> length s3"
    using strip_prefix_Some [OF 4] by simp
  also have "\<dots> \<le> length (dropWhile (\<lambda>c. \<not> is_quote c) s2)"
    using 3 by simp
  also have "\<dots> \<le> length s2"
    by (rule length_dropWhile_le)
  also have "\<dots> < length s"
    using strip_prefix_Some [OF 1] 2 by simp
  finally show ?thesis .
qed

text \<open>
  \<open>re.findall\<close>: the leftmost match from the current position is taken, its groups are
  recorded, and the scan goes on after the match; where no match starts, it moves one
  character on.
\<close>

function findall_face :: "string \<Rightarrow> (string \<times> string) list" where
  "findall_face [] = []"
| "findall_face (c # cs) =
     (case match_face (c # cs) of
        None \<Rightarrow> findall_face cs
      | Some (time_str, emotions_str, rest) \<Rightarrow> (time_str, emotions_str) # findall_face rest)"
  by pat_completeness auto
termination
  by (relation "measure length") (auto dest: match_face_shorter)

function findall_emotion :: "string \<Rightarrow> (string \<times> string) list" where
  "findall_emotion [] = []"
| "findall_emotion (c # cs) =
     (case match_emotion (c # cs) of
        None \<Rightarrow> findall_emotion cs
      | Some (name, score_str, rest) \<Rightarrow> (name, score_str) # findall_emotion rest)"
  by pat_completeness auto
termination
  by (relation "measure length") (auto dest: match_emotion_shorter)

text \<open>
  \<open>float(s)\<close> on the strings the two patterns capture, which consist of digits and
  dots: the value of the decimal numeral when there is at most one dot and at least one
  digit, \<open>ValueError\<close> (\<open>None\<close>) otherwise.
\<close>

definition py_float :: "string \<Rightarrow> real option" where
  "py_float s =
     (let int_part = takeWhile is_digit s;
          after = dropWhile is_digit s
      in if after = [] then
           (if int_part = [] then None else Some (real_of_int (digits_value 0 int_part)))
         else if hd after = CHR ''.'' \<and> list_all is_digit (tl after)
                 \<and> (int_part \<noteq> [] \<or> tl after \<noteq> [])
         then Some (real_of_int (digits_value 0 int_part)
                    + real_of_int (digits_value 0 (tl after)) / 10 ^ length (tl after))
         else None)"

text \<open>The inner loop: one emotion per match, the score 0.0 when it does not parse.\<close>

definition emotion_entries :: "(string \<times> string) list \<Rightarrow> emotion list" where
  "emotion_entries emotion_matches =
     map (\<lambda>(name, score_str).
            \<lparr>e_name = Some name,
             e_score = Some (case py_float score_str of None \<Rightarrow> 0 | Some v \<Rightarrow> v)\<rparr>)
       emotion_matches"

text \<open>The outer loop over the matches, carrying the list \<open>frames\<close>.\<close>

fun frames_loop :: "(string \<times> string) list \<Rightarrow> frame list \<Rightarrow> frame list" where
  "frames_loop [] frames = frames"
| "frames_loop ((time_str, emotions_str) # matches) frames =
     (case py_float time_str of
        None \<Rightarrow> frames_loop matches frames
      | Some time_val \<Rightarrow>
          (let emotions = emotion_entries (findall_emotion emotions_str)
           in if emotions \<noteq> []
              then frames_loop matches
                     (frames @ [\<lparr>f_time = Some time_val, f_emotions = Some emotions\<rparr>])
              else frames_loop matches frames))"

definition extract_emotion_frames :: "string \<Rightarrow> frame list" where
  "extract_emotion_frames raw = (if raw = [] then [] else frames_loop (findall_face raw) [])"

text \<open>
  The lookup of the raw text in \<open>hume_data\<close>: the key \<open>raw_result\<close>, or, when that is
  missing or empty, the same key under \<open>result\<close>.
\<close>

record hume_data =
  h_raw_result :: "string option"
  h_result_raw_result :: "string option option"

definition extract_emotion_frames_from_raw :: "hume_data \<Rightarrow> frame list" where
  "extract_emotion_frames_from_raw hume =
     (let raw = (case h_raw_result hume of None \<Rightarrow> [] | Some r \<Rightarrow> r);
          raw = (if raw = [] \<and> h_result_raw_result hume \<noteq> None
                 then (case h_result_raw_result hume of
                         Some (Some r) \<Rightarrow> r
                       | _ \<Rightarrow> [])
                 else raw)
      in extract_emotion_frames raw)"

text \<open>
  A matched block is well formed when its time parses and its emotion list yields at
  least one emotion; \<open>block_frame\<close> is the frame of a well-formed block.
\<close>

definition well_formed_block :: "string \<times> string \<Rightarrow> bool" where
  "well_formed_block b \<longleftrightarrow> py_float (fst b) \<noteq> None \<and> findall_emotion (snd b) \<noteq> []"

definition block_frame :: "string \<times> string \<Rightarrow> frame" where
  "block_frame b =
     \<lparr>f_time = py_float (fst b),
      f_emotions = Some (emotion_entries (findall_emotion (snd b)))\<rparr>"

text \<open>
  The text of a frame block as the frame pattern describes it, stated without the
  scanners: the literal \<open>FacePrediction(frame=\<close>, digits, a comma, whitespace,
  \<open>time=\<close>, the time (digits and dots, as long as possible), any text \<open>between\<close> in
  which \<open>emotions=[\<close> does not occur before the one that follows, the emotion list
  without a closing bracket inside, and the closing bracket.
\<close>

record face_block =
  fb_frame :: string
  fb_space :: string
  fb_time :: string
  fb_between :: string
  fb_emotions :: string

definition face_block_text :: "face_block \<Rightarrow> string" where
  "face_block_text b =
     ''FacePrediction(frame='' @ fb_frame b @ '','' @ fb_space b @ ''time='' @ fb_time b
       @ fb_between b @ ''emotions=['' @ fb_emotions b @ '']''"

definition face_block_ok :: "face_block \<Rightarrow> bool" where
  "face_block_ok b \<longleftrightarrow>
     fb_frame b \<noteq> [] \<and> list_all is_digit (fb_frame b) \<and> list_all is_space (fb_space b)
     \<and> fb_time b \<noteq> [] \<and> list_all is_time_char (fb_time b)
     \<and> (fb_between b \<noteq> [] \<longrightarrow> \<not> is_time_char (hd (fb_between b)))
     \<and> (\<forall>a c. fb_between b @ ''emotions=['' = a @ ''emotions=['' @ c \<longrightarrow> a = fb_between b)
     \<and> CHR '']'' \<notin> set (fb_emotions b)"

text \<open>
  The text of one emotion as the emotion pattern describes it: an opening quote, a
  non-empty name without quotes, a closing quote, a comma, whitespace, \<open>score=\<close> and
  the score (digits and dots). The score is as long as possible: what follows it does
  not start with a digit or dot.
\<close>

record emotion_block =
  eb_open :: char
  eb_name :: string
  eb_close :: char
  eb_space :: string
  eb_score :: string

definition emotion_block_text :: "emotion_block \<Rightarrow> string" where
  "emotion_block_text b =
     ''EmotionScore(name='' @ [eb_open b] @ eb_name b @ [eb_close b] @ '','' @ eb_space b
       @ ''score='' @ eb_score b"

definition emotion_block_ok :: "emotion_block \<Rightarrow> bool" where
  "emotion_block_ok b \<longleftrightarrow>
     is_quote (eb_open b) \<and> is_quote (eb_close b)
     \<and> eb_name b \<noteq> [] \<and> (\<forall>c \<in> set (eb_name b). \<not> is_quote c)
     \<and> list_all is_space (eb_space b)
     \<and> eb_score b \<noteq> [] \<and> list_all is_time_char (eb_score b)"

text \<open>The value of a string of decimal digits, most significant digit first.\<close>

definition decimal :: "string \<Rightarrow> int" where
  "decimal ds =
     (\<Sum>k < length ds. (int (of_char (ds ! k)) - 48) * 10 ^ (length ds - 1 - k))"

text \<open>
  A raw text made of frame blocks, each preceded by a separator, and a tail; and an
  emotion list made of a lead text followed by emotions, each followed by a separator.
\<close>

definition face_text :: "(string \<times> face_block) list \<Rightarrow> string \<Rightarrow> string" where
  "face_text items tail = concat (map (\<lambda>(sep, b). sep @ face_block_text b) items) @ tail"

definition emotion_list_text :: "string \<Rightarrow> (emotion_block \<times> string) list \<Rightarrow> string" where
  "emotion_list_text lead items =
     lead @ concat (map (\<lambda>(b, sep). emotion_block_text b @ sep) items)"

section \<open>Rescheduling\<close>

text \<open>
  C8. \<open>reschedule_meeting\<close> returns false exactly when the id is not in the meeting table
  or its stored retry count has reached its max retries, and then the state is unchanged;
  otherwise it returns true, stores the retry count plus one and the time now + delay
  (3 minutes if urgent, 5 otherwise, when no delay is given), keeps url, max retries and
  urgency, and pushes one entry carrying the new time and retry count.
\<close>

theorem reschedule_meeting_spec:
  "(fst (reschedule_meeting now i d s) = False
      \<longleftrightarrow> (meetings s i = None
           \<or> (\<exists>t u r m g. meetings s i = Some (t, u, r, m, g) \<and> r \<ge> m)))
   \<and> (fst (reschedule_meeting now i d s) = False \<longrightarrow> snd (reschedule_meeting now i d s) = s)
   \<and> (\<forall>t u r m g. meetings s i = Some (t, u, r, m, g) \<and> r < m \<longrightarrow>
         (let delay = (case d of None \<Rightarrow> (if g then 3 else 5) | Some x \<Rightarrow> x)
          in reschedule_meeting now i d s =
               (True,
                s\<lparr>meetings := (meetings s)(i \<mapsto> (now + minutes delay, u, r + 1, m, g)),
                  queue := insort (now + minutes delay, i, u, r + 1) (queue s)\<rparr>)))"
  by (auto simp: reschedule_meeting_def Let_def heappush_def urgent_retry_minutes_def
      normal_retry_minutes_def split: option.splits)

theorem reschedule_meeting_spec_witness:
  "reschedule_meeting 1000 7 None
     \<lparr>queue = [], meetings = [7 \<mapsto> (0, ''u'', 0, 2, True)], calls = []\<rparr>
   = (True, \<lparr>queue = [(180001000, 7, ''u'', 1)],
             meetings = [7 \<mapsto> (180001000, ''u'', 1, 2, True)], calls = []\<rparr>)
   \<and> reschedule_meeting 1000 8 None
     \<lparr>queue = [], meetings = [7 \<mapsto> (0, ''u'', 0, 2, True)], calls = []\<rparr>
   = (False, \<lparr>queue = [], meetings = [7 \<mapsto> (0, ''u'', 0, 2, True)], calls = []\<rparr>)"
proof -
  let ?s = "\<lparr>queue = [], meetings = [7 \<mapsto> (0, ''u'', 0, 2, True)], calls = []\<rparr>"
  have a: "meetings ?s 7 = Some (0, ''u'', 0, 2, True) \<and> (0::int) < 2"
    by simp
  have b: "meetings ?s 8 = None"
    by simp
  note th = reschedule_meeting_spec [of 1000 7 None ?s]
  from th [THEN conjunct2, THEN conjunct2, rule_format, OF a]
  have "reschedule_meeting 1000 7 None ?s =
      (True, ?s\<lparr>meetings := (meetings ?s)(7 \<mapsto> (1000 + minutes 3, ''u'', 0 + 1, 2, True)),
             queue := insort (1000 + minutes 3, 7, ''u'', 0 + 1) (queue ?s)\<rparr>)"
    by simp
  moreover
  note th' = reschedule_meeting_spec [of 1000 8 None ?s]
  from th' [THEN conjunct1] th' [THEN conjunct2, THEN conjunct1] b
  have "reschedule_meeting 1000 8 None ?s = (False, ?s)"
    by (simp add: prod_eq_iff)
  ultimately show ?thesis
    by (simp add: minutes_def)
qed

section \<open>Scheduling\<close>

text \<open>
  C3 (amended). When the offset join time t + 1 minute is strictly before the current
  time, \<open>schedule_meeting\<close> invokes the join callback exactly once with the id and url
  and returns its result; the heap is untouched and the meeting table changes only by
  losing the entry the id had before. Otherwise (offset join time at or after the current
  time) the callback is not invoked, the call returns true, the table stores
  (t + 1 minute, url, 0, max_retries, urgency) and one entry with due time t + 1 minute
  and retry count 0 is pushed.
\<close>

theorem schedule_meeting_spec:
  "(t + minutes 1 < now \<longrightarrow>
      schedule_meeting cb now i u t m s =
        (cb (length (calls s)) i u,
         s\<lparr>meetings := (meetings s)(i := None), calls := calls s @ [(i, u)]\<rparr>))
   \<and> (now \<le> t + minutes 1 \<longrightarrow>
      schedule_meeting cb now i u t m s =
        (Returned True,
         s\<lparr>meetings := (meetings s)(i \<mapsto>
               (t + minutes 1, u, 0, m, t + minutes 1 - now \<le> minutes 15)),
           queue := insort (t + minutes 1, i, u, 0) (queue s)\<rparr>))"
  by (auto simp: schedule_meeting_def remove_meeting_def invoke_callback_def Let_def
      heappush_def fun_upd_idem domIff)

theorem schedule_meeting_spec_witness:
  "schedule_meeting (\<lambda>k i u. Returned False) 120000001 4 ''z'' 0 5
     \<lparr>queue = [(7, 4, ''z'', 0)], meetings = [4 \<mapsto> (7, ''z'', 0, 5, True)], calls = []\<rparr>
   = (Returned False, \<lparr>queue = [(7, 4, ''z'', 0)], meetings = Map.empty, calls = [(4, ''z'')]\<rparr>)
   \<and> schedule_meeting (\<lambda>k i u. Returned False) 0 4 ''z'' 0 5 init_state
   = (Returned True, \<lparr>queue = [(60000000, 4, ''z'', 0)],
        meetings = [4 \<mapsto> (60000000, ''z'', 0, 5, True)], calls = []\<rparr>)"
  using schedule_meeting_spec [of 0 120000001 "\<lambda>k i u. Returned False" 4 "''z''" 5
      "\<lparr>queue = [(7, 4, ''z'', 0)], meetings = [4 \<mapsto> (7, ''z'', 0, 5, True)], calls = []\<rparr>"]
    schedule_meeting_spec [of 0 0 "\<lambda>k i u. Returned False" 4 "''z''" 5 init_state]
  by (simp add: minutes_def init_state_def)

text \<open>
  The claim as stated fails at the boundary t + 1 minute = now, where nothing is invoked
  and an entry is pushed, and on the past-time path for an id that was already scheduled,
  whose table entry is purged.
\<close>

theorem schedule_meeting_counterexample:
  "0 + minutes 1 \<le> 60000000
   \<and> schedule_meeting (\<lambda>k i u. Returned False) 60000000 4 ''z'' 0 5 init_state
     = (Returned True, \<lparr>queue = [(60000000, 4, ''z'', 0)],
          meetings = [4 \<mapsto> (60000000, ''z'', 0, 5, True)], calls = []\<rparr>)
   \<and> 0 + minutes 1 \<le> 120000001
   \<and> meetings (snd (schedule_meeting (\<lambda>k i u. Returned False) 120000001 4 ''z'' 0 5
        \<lparr>queue = [(7, 4, ''z'', 0)], meetings = [4 \<mapsto> (7, ''z'', 0, 5, True)],
          calls = []\<rparr>)) 4 = None"
  by (simp add: schedule_meeting_def remove_meeting_def invoke_callback_def Let_def
      heappush_def minutes_def init_state_def)

section \<open>Fencing\<close>

lemma join_meeting_eq:
  "join_meeting cb now' i u r m g s =
     (if cb (length (calls s)) i u = Returned True
      then remove_meeting i (s\<lparr>calls := calls s @ [(i, u)]\<rparr>)
      else snd (reschedule_meeting now' i (Some (if g then 3 else 5))
                  (s\<lparr>calls := calls s @ [(i, u)]\<rparr>)))"
  by (auto simp: join_meeting_def invoke_callback_def urgent_retry_minutes_def
      normal_retry_minutes_def split: cb_result.splits bool.splits)

lemma length_filter_insort:
  "length (filter P (insort x xs)) = (if P x then 1 else 0) + length (filter P xs)"
  by (induction xs) auto

lemma fenced_calls [simp]: "fenced i (s\<lparr>calls := c\<rparr>) = fenced i s"
  by (simp add: fenced_def)

lemma filter_empty_if_bounded:
  assumes "\<forall>e \<in> set q. entry_id e = i \<longrightarrow> entry_retry e \<le> k"
  shows "filter (\<lambda>e. entry_id e = i \<and> entry_retry e = k + 1) q = []"
  using assms by (induction q) auto

lemma fenced_reschedule:
  assumes "fenced i s"
  shows "fenced i (snd (reschedule_meeting now j d s))"
proof (cases "meetings s j")
  case None
  then show ?thesis using assms by (simp add: reschedule_meeting_def)
next
  case (Some mt)
  obtain t u k m g where mt: "mt = (t, u, k, m, g)" by (cases mt) auto
  show ?thesis
  proof (cases "k \<ge> m")
    case True
    then show ?thesis using assms Some mt by (simp add: reschedule_meeting_def)
  next
    case False
    define dl where "dl = (case d of None \<Rightarrow> if g then urgent_retry_minutes
                                   else normal_retry_minutes | Some x \<Rightarrow> x)"
    have eq: "snd (reschedule_meeting now j d s) =
        s\<lparr>meetings := (meetings s)(j \<mapsto> (now + minutes dl, u, k + 1, m, g)),
          queue := insort (now + minutes dl, j, u, k + 1) (queue s)\<rparr>"
      using False Some mt by (simp add: reschedule_meeting_def Let_def heappush_def dl_def)
    show ?thesis
    proof (cases "j = i")
      case True
      have bound: "\<forall>e \<in> set (queue s). entry_id e = i \<longrightarrow> entry_retry e \<le> k"
        using assms Some mt True by (auto simp: fenced_def)
      have empty: "filter (\<lambda>e. entry_id e = i \<and> entry_retry e = k + 1) (queue s) = []"
        using filter_empty_if_bounded [OF bound] .
      have cnt: "length (filter (\<lambda>e. entry_id e = i \<and> entry_retry e = r)
                  (insort (now + minutes dl, j, u, k + 1) (queue s))) \<le> 1" for r
      proof (cases "r = k + 1")
        case True
        then show ?thesis using empty by (simp add: length_filter_insort)
      next
        case False
        then show ?thesis using assms
          by (simp add: length_filter_insort entry_id_def entry_retry_def fenced_def)
      qed
      have bnd: "\<forall>e \<in> set (insort (now + minutes dl, j, u, k + 1) (queue s)).
                   entry_id e = i \<longrightarrow> entry_retry e \<le> k + 1"
        using bound by (auto simp: set_insort_key entry_retry_def)
      show ?thesis
        unfolding eq fenced_def using cnt bnd True by simp
    next
      case False
      then show ?thesis
        unfolding eq using assms
        by (simp add: fenced_def length_filter_insort set_insort_key entry_id_def)
    qed
  qed
qed

lemma fenced_remove:
  assumes "fenced i s"
  shows "fenced i (remove_meeting j s)"
  using assms by (auto simp: fenced_def remove_meeting_def)

lemma fenced_pop:
  assumes "fenced i s" and "queue s = e # rest"
  shows "fenced i (s\<lparr>queue := rest\<rparr>)"
proof -
  have "length (filter P rest) \<le> length (filter P (queue s))" for P :: "entry \<Rightarrow> bool"
    using assms(2) by simp
  then have "\<forall>r. length (filter (\<lambda>e. entry_id e = i \<and> entry_retry e = r) rest) \<le> 1"
    using assms(1) unfolding fenced_def by (meson le_trans)
  then show ?thesis
    using assms by (auto simp: fenced_def)
qed

lemma fenced_join:
  assumes "fenced i s"
  shows "fenced i (join_meeting cb now' j u r m g s)"
  unfolding join_meeting_eq
  using fenced_remove [of i "s\<lparr>calls := calls s @ [(j, u)]\<rparr>" j]
    fenced_reschedule [of i "s\<lparr>calls := calls s @ [(j, u)]\<rparr>" now' j] assms
  by simp

lemma fenced_process:
  assumes "fenced i s"
  shows "fenced i (process_next_meeting cb now now' s)"
proof (cases "queue s")
  case Nil
  then show ?thesis using assms by (simp add: process_next_meeting_def)
next
  case (Cons e rest)
  have p: "fenced i (s\<lparr>queue := rest\<rparr>)"
    using fenced_pop [OF assms Cons] .
  obtain nt j u r where e: "e = (nt, j, u, r)" by (cases e) auto
  show ?thesis
    using assms p fenced_join [OF p] Cons e
    by (auto simp: process_next_meeting_def Let_def split: option.splits)
qed

lemma fenced_check:
  assumes "fenced i s"
  shows "fenced i (check_for_urgent_meetings now s)"
  using assms
  by (auto simp: fenced_def check_for_urgent_meetings_def split: option.splits if_splits)

lemma fenced_cancel:
  assumes "fenced i s"
  shows "fenced i (snd (cancel_meeting j s))"
  using assms fenced_remove [OF assms, of j] by (simp add: cancel_meeting_def)

lemma fenced_schedule_other:
  assumes "fenced i s" and "j \<noteq> i"
  shows "fenced i (snd (schedule_meeting cb now j u t m s))"
proof -
  have a: "fenced i (remove_meeting j s)"
    using fenced_remove [OF assms(1)] .
  have b: "meetings (remove_meeting j s) i = meetings s i"
    using assms(2) by (simp add: remove_meeting_def)
  have c: "queue (remove_meeting j s) = queue s"
    by (simp add: remove_meeting_def)
  show ?thesis
    using assms
    by (auto simp: schedule_meeting_def Let_def invoke_callback_def heappush_def
        fenced_def length_filter_insort set_insort_key entry_id_def remove_meeting_def)
qed

lemma fenced_step:
  assumes "fenced i s" and "\<not> schedules i e"
  shows "fenced i (step cb s e)"
  using assms
  by (cases e)
    (simp_all add: fenced_reschedule fenced_cancel fenced_process fenced_check
      fenced_schedule_other)

lemma fenced_run:
  assumes "fenced i s" and "\<forall>e \<in> set es. \<not> schedules i e"
  shows "fenced i (run cb es s)"
  using assms unfolding run_def
  by (induction es arbitrary: s) (simp_all add: fenced_step)

lemma fenced_fresh:
  assumes "\<forall>e \<in> set (queue s). entry_id e \<noteq> i" and "now \<le> t + minutes 1"
  shows "fenced i (snd (schedule_meeting cb now i u t m s))"
proof -
  have "filter (\<lambda>e. entry_id e = i \<and> entry_retry e = r) (queue s) = []" for r
    using assms(1) by (induction "queue s") (auto simp: filter_empty_conv)
  then show ?thesis
    using assms
    by (auto simp: schedule_meeting_def Let_def heappush_def fenced_def
        length_filter_insort set_insort_key entry_id_def entry_retry_def remove_meeting_def)
qed

lemma fenced_honored:
  assumes "fenced i s"
  shows "length (filter (\<lambda>e. entry_id e = i \<and> honored s e) (queue s)) \<le> 1"
proof (cases "meetings s i")
  case None
  then have "filter (\<lambda>e. entry_id e = i \<and> honored s e) (queue s) = []"
    by (auto simp: filter_empty_conv honored_def)
  then show ?thesis by simp
next
  case (Some mt)
  obtain t u k m g where mt: "mt = (t, u, k, m, g)" by (cases mt) auto
  have "(\<lambda>e. entry_id e = i \<and> honored s e) = (\<lambda>e. entry_id e = i \<and> entry_retry e = k)"
    using Some mt by (auto simp: honored_def fun_eq_iff)
  then show ?thesis
    using assms by (simp add: fenced_def)
qed


text \<open>
  What the fencing check guarantees. A popped entry whose meeting id is absent from the
  meeting table, or whose retry count differs from the one stored for the id, is
  discarded: the entry leaves the queue, the join callback is not invoked and the table
  is untouched. After a \<open>schedule_meeting\<close> for an id on a queue holding no entry of
  that id, followed by any reschedules, cancellations, urgency checks and processor
  iterations, and by schedulings of other ids, the queue never holds more than one entry
  of the id that the processor would honor.
\<close>

lemma fencing_within_generation:
  "(queue s = e # rest \<and> fst e \<le> now
      \<and> (meetings s (entry_id e) = None
           \<or> (\<exists>t u k m g. meetings s (entry_id e) = Some (t, u, k, m, g) \<and> k \<noteq> entry_retry e))
      \<longrightarrow> process_next_meeting cb now now' s = s\<lparr>queue := rest\<rparr>)
   \<and> ((\<forall>x \<in> set (queue s0). entry_id x \<noteq> i) \<and> now0 \<le> t0 + minutes 1
        \<and> (\<forall>ev \<in> set es. \<not> schedules i ev)
      \<longrightarrow> length (filter (\<lambda>x. entry_id x = i
                    \<and> honored (run cb es (snd (schedule_meeting cb now0 i u0 t0 m0 s0))) x)
             (queue (run cb es (snd (schedule_meeting cb now0 i u0 t0 m0 s0))))) \<le> 1)"
proof (intro conjI impI)
  assume a: "queue s = e # rest \<and> fst e \<le> now
      \<and> (meetings s (entry_id e) = None
           \<or> (\<exists>t u k m g. meetings s (entry_id e) = Some (t, u, k, m, g) \<and> k \<noteq> entry_retry e))"
  obtain nt j u r where e: "e = (nt, j, u, r)" by (cases e) auto
  from a e show "process_next_meeting cb now now' s = s\<lparr>queue := rest\<rparr>"
    by (auto simp: process_next_meeting_def Let_def entry_id_def entry_retry_def)
next
  assume b: "(\<forall>x \<in> set (queue s0). entry_id x \<noteq> i) \<and> now0 \<le> t0 + minutes 1
        \<and> (\<forall>ev \<in> set es. \<not> schedules i ev)"
  then have "fenced i (snd (schedule_meeting cb now0 i u0 t0 m0 s0))"
    by (simp add: fenced_fresh)
  then have "fenced i (run cb es (snd (schedule_meeting cb now0 i u0 t0 m0 s0)))"
    using b by (simp add: fenced_run)
  then show "length (filter (\<lambda>x. entry_id x = i
                    \<and> honored (run cb es (snd (schedule_meeting cb now0 i u0 t0 m0 s0))) x)
             (queue (run cb es (snd (schedule_meeting cb now0 i u0 t0 m0 s0))))) \<le> 1"
    by (rule fenced_honored)
qed


section \<open>Retry exhaustion\<close>

lemma filter_insort_fresh:
  assumes "P x" and "filter P xs = []"
  shows "filter P (insort x xs) = [x]"
  using assms by (induction xs) (auto split: if_splits)

lemma filter_insort_other:
  assumes "\<not> P x"
  shows "filter P (insort x xs) = filter P xs"
  using assms by (induction xs) auto

lemma entries_of_push_other:
  assumes "j \<noteq> i"
  shows "filter (\<lambda>e. entry_id e = i) (heappush q (tm, j, u, r)) = filter (\<lambda>e. entry_id e = i) q"
  unfolding heappush_def using assms by (simp add: filter_insort_other entry_id_def)

lemma same_for_refl: "same_for i s s"
  by (simp add: same_for_def)

lemma same_for_trans: "same_for i s s' \<Longrightarrow> same_for i s' s'' \<Longrightarrow> same_for i s s''"
  by (simp add: same_for_def)

lemma exhausting_same_for:
  assumes "exhausting i u N c0 s" and "same_for i s s'"
  shows "exhausting i u N c0 s'"
  using assms by (simp add: exhausting_def same_for_def)

lemma same_for_remove:
  assumes "j \<noteq> i"
  shows "same_for i s (remove_meeting j s)"
  using assms by (simp add: same_for_def remove_meeting_def entries_of_def calls_of_def)

lemma same_for_reschedule:
  assumes "j \<noteq> i"
  shows "same_for i s (snd (reschedule_meeting now j d s))"
  using assms
  by (auto simp: same_for_def reschedule_meeting_def Let_def entries_of_def calls_of_def
      entries_of_push_other split: option.splits)

lemma same_for_call:
  assumes "j \<noteq> i"
  shows "same_for i s (s\<lparr>calls := calls s @ [(j, u)]\<rparr>)"
  using assms by (simp add: same_for_def entries_of_def calls_of_def)

lemma same_for_join:
  assumes "j \<noteq> i"
  shows "same_for i s (join_meeting cb now' j u r m g s)"
proof -
  let ?s1 = "s\<lparr>calls := calls s @ [(j, u)]\<rparr>"
  have a: "same_for i s ?s1"
    using same_for_call [OF assms] .
  have b: "same_for i ?s1 (remove_meeting j ?s1)"
    using same_for_remove [OF assms] .
  have c: "same_for i ?s1 (snd (reschedule_meeting now' j (Some (if g then 3 else 5)) ?s1))"
    using same_for_reschedule [OF assms] .
  show ?thesis
    unfolding join_meeting_eq using same_for_trans [OF a b] same_for_trans [OF a c] by simp
qed

lemma same_for_schedule:
  assumes "j \<noteq> i"
  shows "same_for i s (snd (schedule_meeting cb now j u t m s))"
  using assms
  by (auto simp: same_for_def schedule_meeting_def Let_def invoke_callback_def remove_meeting_def
      entries_of_def calls_of_def entries_of_push_other)

lemma same_for_cancel:
  assumes "j \<noteq> i"
  shows "same_for i s (snd (cancel_meeting j s))"
  using same_for_remove [OF assms, of s] by (simp add: cancel_meeting_def same_for_refl)


lemma exhausting_init:
  assumes "0 \<le> N" and "now \<le> t + minutes 1" and "\<forall>x \<in> set (queue s0). entry_id x \<noteq> i"
  shows "exhausting i u N (calls_of i s0) (snd (schedule_meeting cb now i u t N s0))"
proof -
  have e: "filter (\<lambda>e. entry_id e = i) (queue s0) = []"
    using assms(3) by (auto simp: filter_empty_conv)
  have "filter (\<lambda>e. entry_id e = i) (insort (t + minutes 1, i, u, 0) (queue s0))
      = [(t + minutes 1, i, u, 0)]"
    using filter_insort_fresh [of "\<lambda>e. entry_id e = i" "(t + minutes 1, i, u, 0)" "queue s0"] e
    by (simp add: entry_id_def)
  then show ?thesis
    using assms(1,2)
    by (auto simp: exhausting_def schedule_meeting_def Let_def heappush_def remove_meeting_def
        entries_of_def calls_of_def)
qed

lemma exhausting_check:
  assumes "exhausting i u N c0 s"
  shows "exhausting i u N c0 (check_for_urgent_meetings now s)"
  using assms
  by (auto simp: exhausting_def check_for_urgent_meetings_def entries_of_def calls_of_def)

lemma replicate_snoc_same: "replicate n a @ [a] = replicate (Suc n) a"
  by (simp add: replicate_append_same)

lemma exhausting_tick:
  assumes ex: "exhausting i u N c0 s" and fail: "\<forall>k u'. cb k i u' \<noteq> Returned True"
  shows "exhausting i u N c0 (process_next_meeting cb now now' s)"
proof (cases "queue s")
  case Nil
  then show ?thesis using ex by (simp add: process_next_meeting_def)
next
  case (Cons e rest)
  obtain nt j url r where e: "e = (nt, j, url, r)" by (cases e) auto
  show ?thesis
  proof (cases "nt \<le> now")
    case False
    then show ?thesis using ex Cons e by (simp add: process_next_meeting_def)
  next
    case due: True
    let ?s1 = "s\<lparr>queue := rest\<rparr>"
    show ?thesis
    proof (cases "j = i")
      case False
      have pop: "same_for i s ?s1"
        using Cons e False by (simp add: same_for_def entries_of_def calls_of_def entry_id_def)
      have "same_for i ?s1 (process_next_meeting cb now now' s)"
      proof (cases "meetings s j")
        case None
        then show ?thesis
          using Cons e due by (simp add: process_next_meeting_def same_for_refl)
      next
        case (Some mt)
        obtain st su sr sm sg where mt: "mt = (st, su, sr, sm, sg)" by (cases mt) auto
        show ?thesis
          using Cons e due Some mt same_for_join [OF False, of ?s1 cb now' su sr sm sg]
          by (auto simp: process_next_meeting_def Let_def same_for_refl)
      qed
      from exhausting_same_for [OF ex same_for_trans [OF pop this]] show ?thesis .
    next
      case True
      from ex obtain tm g k n where m: "meetings s i = Some (tm, u, k, N, g)"
        and k: "0 \<le> k" "k \<le> N" and c: "calls_of i s = c0 @ replicate n (i, u)"
        and q: "(entries_of i s = [(tm, i, u, k)] \<and> int n = k)
            \<or> (entries_of i s = [] \<and> k = N \<and> int n = N + 1)"
        unfolding exhausting_def by blast
      have "e \<in> set (entries_of i s)"
        using Cons e True by (simp add: entries_of_def entry_id_def)
      with q have q1: "entries_of i s = [(tm, i, u, k)]" and n: "int n = k"
        by auto
      have ee: "e = (tm, i, u, k)" and rest: "filter (\<lambda>e. entry_id e = i) rest = []"
        using q1 Cons e True by (simp_all add: entries_of_def entry_id_def)
      let ?s2 = "s\<lparr>queue := rest, calls := calls s @ [(i, u)]\<rparr>"
      have c2: "calls_of i ?s2 = c0 @ replicate (Suc n) (i, u)"
        using c by (simp add: calls_of_def replicate_append_same)
      have p: "process_next_meeting cb now now' s =
          snd (reschedule_meeting now' i (Some (if g then 3 else 5)) ?s2)"
        using Cons ee due m fail e
        by (simp add: process_next_meeting_def Let_def join_meeting_eq)
      show ?thesis
      proof (cases "k = N")
        case True
        then have "snd (reschedule_meeting now' i (Some (if g then 3 else 5)) ?s2) = ?s2"
          using m by (simp add: reschedule_meeting_def)
        moreover have "meetings ?s2 i = Some (tm, u, k, N, g) \<and> 0 \<le> k \<and> k \<le> N
            \<and> calls_of i ?s2 = c0 @ replicate (Suc n) (i, u)
            \<and> ((entries_of i ?s2 = [(tm, i, u, k)] \<and> int (Suc n) = k)
                \<or> (entries_of i ?s2 = [] \<and> k = N \<and> int (Suc n) = N + 1))"
          using m k c2 rest True n by (simp add: entries_of_def)
        then have "exhausting i u N c0 ?s2"
          unfolding exhausting_def by blast
        ultimately show ?thesis unfolding p by simp
      next
        case False
        then have lt: "k < N" using k by simp
        define nt' where "nt' = now' + minutes (if g then 3 else 5)"
        have r: "snd (reschedule_meeting now' i (Some (if g then 3 else 5)) ?s2) =
            ?s2\<lparr>meetings := (meetings s)(i \<mapsto> (nt', u, k + 1, N, g)),
                 queue := insort (nt', i, u, k + 1) rest\<rparr>"
          using m lt by (simp add: reschedule_meeting_def Let_def heappush_def nt'_def)
        have f: "filter (\<lambda>e. entry_id e = i) (insort (nt', i, u, k + 1) rest)
            = [(nt', i, u, k + 1)]"
          using filter_insort_fresh [of "\<lambda>e. entry_id e = i" "(nt', i, u, k + 1)" rest] rest
          by (simp add: entry_id_def)
        let ?s3 = "?s2\<lparr>meetings := (meetings s)(i \<mapsto> (nt', u, k + 1, N, g)),
                 queue := insort (nt', i, u, k + 1) rest\<rparr>"
        have c3: "calls_of i ?s3 = calls_of i ?s2"
          by (simp add: calls_of_def)
        have "meetings ?s3 i = Some (nt', u, k + 1, N, g) \<and> 0 \<le> k + 1 \<and> k + 1 \<le> N
            \<and> calls_of i ?s3 = c0 @ replicate (Suc n) (i, u)
            \<and> ((entries_of i ?s3 = [(nt', i, u, k + 1)] \<and> int (Suc n) = k + 1)
                \<or> (entries_of i ?s3 = [] \<and> k + 1 = N \<and> int (Suc n) = N + 1))"
          using k lt c2 c3 n f by (simp add: entries_of_def)
        then have "exhausting i u N c0 ?s3"
          unfolding exhausting_def by blast
        then show ?thesis
          unfolding p r .
      qed
    qed
  qed
qed

lemma exhausting_step:
  assumes "exhausting i u N c0 s" and "\<forall>k u'. cb k i u' \<noteq> Returned True" and "\<not> touches i e"
  shows "exhausting i u N c0 (step cb s e)"
proof (cases e)
  case (Schedule j url t m now)
  then show ?thesis
    using assms exhausting_same_for [OF assms(1) same_for_schedule [of j i s cb now url t m]]
    by simp
next
  case (Reschedule j d now)
  then show ?thesis
    using assms exhausting_same_for [OF assms(1) same_for_reschedule [of j i s now d]]
    by simp
next
  case (Cancel j)
  then show ?thesis
    using assms exhausting_same_for [OF assms(1) same_for_cancel [of j i s]]
    by simp
next
  case (Tick now now')
  then show ?thesis
    using exhausting_tick [where cb = cb and s = s and now = now and now' = now'] assms(1,2)
    by simp
next
  case (CheckUrgent now)
  then show ?thesis
    using exhausting_check [OF assms(1)] by simp
qed

lemma exhausting_run:
  assumes "exhausting i u N c0 s" and "\<forall>k u'. cb k i u' \<noteq> Returned True"
    and "\<forall>e \<in> set es. \<not> touches i e"
  shows "exhausting i u N c0 (run cb es s)"
  using assms unfolding run_def
  by (induction es arbitrary: s) (simp_all add: exhausting_step)

lemma run_append: "run cb (es @ es') s = run cb es' (run cb es s)"
  by (simp add: run_def)

lemma is_tick_not_touches: "is_tick e \<Longrightarrow> \<not> touches i e"
  by (cases e) simp_all


lemma calls_reschedule [simp]: "calls (snd (reschedule_meeting now j d s)) = calls s"
  by (auto simp: reschedule_meeting_def Let_def split: option.splits)

lemma calls_remove [simp]: "calls (remove_meeting j s) = calls s"
  by (simp add: remove_meeting_def)

lemma calls_step: "\<exists>xs. calls (step cb s e) = calls s @ xs"
proof (cases e)
  case (Schedule j url t m now)
  then show ?thesis
    by (auto simp: schedule_meeting_def Let_def invoke_callback_def)
next
  case (Tick now now')
  then show ?thesis
    by (auto simp: process_next_meeting_def Let_def join_meeting_eq
        split: list.splits option.splits)
next
  case (CheckUrgent now)
  then show ?thesis by (simp add: check_for_urgent_meetings_def)
qed (simp_all add: cancel_meeting_def)

lemma attempts_step: "attempts i s \<le> attempts i (step cb s e)"
proof -
  obtain xs where "calls (step cb s e) = calls s @ xs"
    using calls_step by blast
  then show ?thesis by (simp add: attempts_def calls_of_def)
qed

lemma attempts_run: "attempts i s \<le> attempts i (run cb es s)"
  unfolding run_def
proof (induction es arbitrary: s)
  case Nil
  then show ?case by simp
next
  case (Cons e es)
  have "attempts i s \<le> attempts i (step cb s e)" by (rule attempts_step)
  also have "\<dots> \<le> attempts i (foldl (step cb) (step cb s e) es)" by (rule Cons.IH)
  finally show ?case by simp
qed

lemma exhausting_progress:
  assumes ex: "exhausting i u N c0 s" and fail: "\<forall>k u'. cb k i u' \<noteq> Returned True"
    and q: "queue s = e # rest" and id: "entry_id e = i" and due: "fst e \<le> T"
  shows "attempts i (process_next_meeting cb T T' s) = attempts i s + 1"
proof -
  from ex obtain tm g k n where m: "meetings s i = Some (tm, u, k, N, g)"
    and b: "(entries_of i s = [(tm, i, u, k)] \<and> int n = k)
            \<or> (entries_of i s = [] \<and> k = N \<and> int n = N + 1)"
    unfolding exhausting_def by blast
  have "e \<in> set (entries_of i s)"
    using q id by (simp add: entries_of_def)
  with b have "entries_of i s = [(tm, i, u, k)]"
    by auto
  then have ee: "e = (tm, i, u, k)"
    using q id by (simp add: entries_of_def)
  have "process_next_meeting cb T T' s =
      snd (reschedule_meeting T' i (Some (if g then 3 else 5))
             (s\<lparr>queue := rest, calls := calls s @ [(i, u)]\<rparr>))"
    using q ee due m fail by (simp add: process_next_meeting_def Let_def join_meeting_eq)
  then show ?thesis
    by (simp add: attempts_def calls_of_def)
qed

lemma tick_queue:
  assumes "queue s = e # rest" and "fst e \<le> now"
  shows "queue (process_next_meeting cb now now' s) = rest
     \<or> (\<exists>d url r. (d = 3 \<or> d = 5)
           \<and> queue (process_next_meeting cb now now' s)
               = insort (now' + minutes d, entry_id e, url, r) rest)"
proof -
  obtain nt j url r where e: "e = (nt, j, url, r)" by (cases e) auto
  have rm: "queue (remove_meeting j s') = queue s'" for s' :: queue_state
    by (simp add: remove_meeting_def)
  have rs: "queue (snd (reschedule_meeting now' j (Some d) s')) = queue s'
      \<or> (\<exists>url r. queue (snd (reschedule_meeting now' j (Some d) s'))
            = insort (now' + minutes d, j, url, r) (queue s'))" for s' :: queue_state and d
    by (auto simp: reschedule_meeting_def Let_def heappush_def split: option.splits)
  show ?thesis
  proof (cases "meetings s j")
    case None
    then show ?thesis
      using assms e by (simp add: process_next_meeting_def)
  next
    case (Some mt)
    obtain st su sr sm sg where mt: "mt = (st, su, sr, sm, sg)" by (cases mt) auto
    let ?s2 = "s\<lparr>queue := rest, calls := calls s @ [(j, su)]\<rparr>"
    show ?thesis
    proof (cases "sr = r")
      case False
      then show ?thesis
        using assms e Some mt by (simp add: process_next_meeting_def)
    next
      case True
      have p: "process_next_meeting cb now now' s =
          (if cb (length (calls s)) j su = Returned True then remove_meeting j ?s2
           else snd (reschedule_meeting now' j (Some (if sg then 3 else 5)) ?s2))"
        using assms e Some mt True by (simp add: process_next_meeting_def Let_def join_meeting_eq)
      show ?thesis
      proof (cases "cb (length (calls s)) j su = Returned True")
        case True
        then show ?thesis unfolding p using rm [of ?s2] by simp
      next
        case False
        have d: "(if sg then 3 else 5) = (3::int) \<or> (if sg then 3 else 5) = (5::int)"
          by simp
        from rs [of "if sg then 3 else 5" ?s2]
        have "queue (snd (reschedule_meeting now' j (Some (if sg then 3 else 5)) ?s2)) = rest
            \<or> (\<exists>url r. queue (snd (reschedule_meeting now' j (Some (if sg then 3 else 5)) ?s2))
                  = insort (now' + minutes (if sg then 3 else 5), entry_id e, url, r) rest)"
          using e by (simp add: entry_id_def)
        with d show ?thesis
          unfolding p using False by (simp only: if_False) blast
      qed
    qed
  qed
qed

lemma insort_last:
  assumes "\<forall>y \<in> set xs. y < x"
  shows "insort x xs = xs @ [x]"
  using assms by (induction xs) (auto simp: not_le [symmetric])

lemma bring_to_head:
  assumes "exhausting i u N c0 s" and "\<forall>k u'. cb k i u' \<noteq> Returned True"
    and "entries_of i s \<noteq> []"
  shows "\<exists>ticks. (\<forall>e \<in> set ticks. is_tick e)
           \<and> (\<exists>e rest. queue (run cb ticks s) = e # rest \<and> entry_id e = i)"
  using assms(1,3)
proof (induction p \<equiv> "length (takeWhile (\<lambda>e. entry_id e \<noteq> i) (queue s))" arbitrary: s)
  case 0
  from "0.prems"(2) obtain e rest where q: "queue s = e # rest"
    by (cases "queue s") (auto simp: entries_of_def)
  with "0.hyps" have "entry_id e = i"
    by (auto split: if_splits)
  with q have "(\<forall>e \<in> set []. is_tick e)
      \<and> (\<exists>e rest. queue (run cb [] s) = e # rest \<and> entry_id e = i)"
    by (simp add: run_def)
  then show ?case by blast
next
  case (Suc p)
  from Suc.hyps(2) obtain e rest where q: "queue s = e # rest" and ne: "entry_id e \<noteq> i"
    and len: "p = length (takeWhile (\<lambda>e. entry_id e \<noteq> i) rest)"
    by (cases "queue s") (auto split: if_splits)
  have inrest: "filter (\<lambda>e. entry_id e = i) rest \<noteq> []"
    using Suc.prems(2) q ne by (simp add: entries_of_def)
  then obtain x where x: "x \<in> set rest" "entry_id x = i"
    by (auto simp: filter_empty_conv)
  define M where "M = Max (insert 0 (fst ` set rest))"
  have M: "fst y \<le> M" if "y \<in> set rest" for y
    unfolding M_def using that by (intro Max_ge) auto
  let ?s' = "process_next_meeting cb (fst e) M s"
  have ex': "exhausting i u N c0 ?s'"
    using exhausting_tick [where cb = cb and s = s and now = "fst e" and now' = M]
      Suc.prems(1) assms(2) by blast
  have shape: "queue ?s' = rest \<or> (\<exists>new. queue ?s' = rest @ [new])"
  proof -
    from tick_queue [OF q, of "fst e" cb M]
    consider "queue ?s' = rest"
      | d url r where "d = 3 \<or> d = 5"
        "queue ?s' = insort (M + minutes d, entry_id e, url, r) rest"
      by auto
    then show ?thesis
    proof cases
      case 1
      then show ?thesis by simp
    next
      case 2
      have "\<forall>y \<in> set rest. y < (M + minutes d, entry_id e, url, r)"
      proof
        fix y
        assume "y \<in> set rest"
        then have "fst y < M + minutes d"
          using M [of y] 2(1) by (auto simp: minutes_def)
        then show "y < (M + minutes d, entry_id e, url, r)"
          by (cases y) simp
      qed
      from insort_last [OF this] 2(2) show ?thesis by simp
    qed
  qed
  have tw: "length (takeWhile (\<lambda>e. entry_id e \<noteq> i) (queue ?s')) = p"
    using shape x len by auto
  have ne': "entries_of i ?s' \<noteq> []"
    using shape inrest by (auto simp: entries_of_def)
  from Suc.hyps(1) [OF tw [symmetric] ex' ne'] obtain ticks where
    t: "\<forall>e \<in> set ticks. is_tick e"
       "\<exists>e rest. queue (run cb ticks ?s') = e # rest \<and> entry_id e = i"
    by blast
  have "(\<forall>e \<in> set (Tick (fst e) M # ticks). is_tick e)
      \<and> (\<exists>e' rest. queue (run cb (Tick (fst e) M # ticks) s) = e' # rest \<and> entry_id e' = i)"
    using t by (simp add: run_def)
  then show ?case by blast
qed

lemma exhausting_attempts:
  assumes "exhausting i u N c0 s"
  shows "attempts i s \<le> length c0 + nat N + 1"
    and "entries_of i s = [] \<longleftrightarrow> attempts i s = length c0 + nat N + 1"
    and "\<exists>tm g k. meetings s i = Some (tm, u, k, N, g) \<and> (entries_of i s = [] \<longrightarrow> k = N)"
proof -
  from assms obtain tm g k n where m: "meetings s i = Some (tm, u, k, N, g)"
    and k: "0 \<le> k" "k \<le> N" and c: "calls_of i s = c0 @ replicate n (i, u)"
    and b: "(entries_of i s = [(tm, i, u, k)] \<and> int n = k)
            \<or> (entries_of i s = [] \<and> k = N \<and> int n = N + 1)"
    unfolding exhausting_def by blast
  have a: "attempts i s = length c0 + n"
    using c by (simp add: attempts_def)
  show "attempts i s \<le> length c0 + nat N + 1"
    using a b k by linarith
  show "entries_of i s = [] \<longleftrightarrow> attempts i s = length c0 + nat N + 1"
  proof
    assume "entries_of i s = []"
    with b have "int n = N + 1" by auto
    then show "attempts i s = length c0 + nat N + 1" using a k by linarith
  next
    assume e: "attempts i s = length c0 + nat N + 1"
    show "entries_of i s = []"
    proof (rule ccontr)
      assume "entries_of i s \<noteq> []"
      with b have "int n = k" by auto
      with e a k show False by linarith
    qed
  qed
  show "\<exists>tm g k. meetings s i = Some (tm, u, k, N, g) \<and> (entries_of i s = [] \<longrightarrow> k = N)"
    using m b by auto
qed

lemma exhausting_drain:
  assumes "exhausting i u N c0 s" and "\<forall>k u'. cb k i u' \<noteq> Returned True"
  shows "\<exists>ticks. (\<forall>e \<in> set ticks. is_tick e) \<and> entries_of i (run cb ticks s) = []"
  using assms(1)
proof (induction n \<equiv> "length c0 + nat N + 1 - attempts i s" arbitrary: s rule: less_induct)
  case less
  show ?case
  proof (cases "entries_of i s = []")
    case True
    then have "(\<forall>e \<in> set []. is_tick e) \<and> entries_of i (run cb [] s) = []"
      by (simp add: run_def)
    then show ?thesis by blast
  next
    case False
    from bring_to_head [where cb = cb and s = s] less.prems assms(2) False
    obtain ticks1 e rest where
      t1: "\<forall>e \<in> set ticks1. is_tick e" and q: "queue (run cb ticks1 s) = e # rest"
      and id: "entry_id e = i"
      by blast
    let ?s1 = "run cb ticks1 s"
    have ex1: "exhausting i u N c0 ?s1"
      using exhausting_run [where cb = cb and es = ticks1 and s = s] less.prems assms(2) t1
        is_tick_not_touches by blast
    let ?s2 = "process_next_meeting cb (fst e) (fst e) ?s1"
    have ex2: "exhausting i u N c0 ?s2"
      using exhausting_tick [where cb = cb and s = ?s1] ex1 assms(2) by blast
    have grow: "attempts i ?s2 = attempts i ?s1 + 1"
      using exhausting_progress [where cb = cb and s = ?s1 and T = "fst e" and T' = "fst e"]
        ex1 assms(2) q id by simp
    have mono: "attempts i s \<le> attempts i ?s1"
      by (rule attempts_run)
    have bound: "attempts i ?s2 \<le> length c0 + nat N + 1"
      using exhausting_attempts(1) [OF ex2] .
    have "length c0 + nat N + 1 - attempts i ?s2 < length c0 + nat N + 1 - attempts i s"
      using grow mono bound by linarith
    from less.hyps [OF this ex2] obtain ticks2 where
      t2: "\<forall>e \<in> set ticks2. is_tick e" "entries_of i (run cb ticks2 ?s2) = []"
      by blast
    let ?ticks = "ticks1 @ Tick (fst e) (fst e) # ticks2"
    have "run cb ?ticks s = run cb ticks2 ?s2"
      by (simp add: run_def)
    then have "(\<forall>e \<in> set ?ticks. is_tick e) \<and> entries_of i (run cb ?ticks s) = []"
      using t1 t2 by auto
    then show ?thesis by blast
  qed
qed


text \<open>
  C2 (amended). A meeting is scheduled with max_retries = N, N at least 0, its offset
  join time not before the current time, while the queue holds no entry of its id; other
  meetings may be queued. Its join callback never returns true. Through every run of
  processor iterations, urgency checks and operations on other ids, the callback is
  invoked for this meeting with its url only and at most N + 1 times; the queue holds no
  entry of the meeting exactly when it has been invoked N + 1 times; the meeting stays in
  the meeting table, with retry count N once no entry is left; an iteration that finds
  the meeting's entry at the head of the queue, at or after its due time, invokes the
  callback once more; some run of iterations removes the last entry; and once no entry is
  left no further such run invokes the callback for the meeting.
\<close>

theorem retry_exhaustion:
  assumes "0 \<le> N" and "now \<le> t + minutes 1" and "\<forall>k u'. cb k i u' \<noteq> Returned True"
    and "\<forall>x \<in> set (queue start). entry_id x \<noteq> i" and "\<forall>e \<in> set es. \<not> touches i e"
  shows "(\<exists>n. calls_of i (scheduled_run cb start now i u t N es)
             = calls_of i start @ replicate n (i, u))
     \<and> attempts i (scheduled_run cb start now i u t N es) \<le> attempts i start + nat N + 1
     \<and> (entries_of i (scheduled_run cb start now i u t N es) = []
          \<longleftrightarrow> attempts i (scheduled_run cb start now i u t N es) = attempts i start + nat N + 1)
     \<and> (\<exists>tm g k. meetings (scheduled_run cb start now i u t N es) i = Some (tm, u, k, N, g)
          \<and> (entries_of i (scheduled_run cb start now i u t N es) = [] \<longrightarrow> k = N))
     \<and> (\<forall>e rest T T'. queue (scheduled_run cb start now i u t N es) = e # rest
            \<and> entry_id e = i \<and> fst e \<le> T \<longrightarrow>
          attempts i (process_next_meeting cb T T' (scheduled_run cb start now i u t N es))
            = attempts i (scheduled_run cb start now i u t N es) + 1)
     \<and> (\<exists>ticks. (\<forall>e \<in> set ticks. is_tick e)
          \<and> entries_of i (run cb ticks (scheduled_run cb start now i u t N es)) = [])
     \<and> (entries_of i (scheduled_run cb start now i u t N es) = [] \<longrightarrow>
          (\<forall>es'. (\<forall>e \<in> set es'. \<not> touches i e) \<longrightarrow>
             attempts i (run cb es' (scheduled_run cb start now i u t N es))
               = attempts i (scheduled_run cb start now i u t N es)))"
proof -
  define S where "S = scheduled_run cb start now i u t N es"
  define c0 where "c0 = calls_of i start"
  have len: "attempts i start = length c0"
    by (simp add: attempts_def c0_def)
  have ex: "exhausting i u N c0 S"
    unfolding S_def scheduled_run_def c0_def
    using exhausting_run [where cb = cb and es = es and i = i and u = u and N = N]
      exhausting_init [where cb = cb and i = i and u = u, OF assms(1,2,4)] assms(3,5)
    by blast
  have 0: "\<exists>n. calls_of i S = calls_of i start @ replicate n (i, u)"
    using ex unfolding exhausting_def c0_def by blast
  have 1: "attempts i S \<le> attempts i start + nat N + 1"
    using exhausting_attempts(1) [OF ex] len by simp
  have 2: "entries_of i S = [] \<longleftrightarrow> attempts i S = attempts i start + nat N + 1"
    using exhausting_attempts(2) [OF ex] len by simp
  have 3: "\<exists>tm g k. meetings S i = Some (tm, u, k, N, g) \<and> (entries_of i S = [] \<longrightarrow> k = N)"
    using exhausting_attempts(3) [OF ex] .
  have 4: "\<forall>e rest T T'. queue S = e # rest \<and> entry_id e = i \<and> fst e \<le> T \<longrightarrow>
          attempts i (process_next_meeting cb T T' S) = attempts i S + 1"
    using exhausting_progress [where cb = cb and s = S] ex assms(3) by blast
  have 5: "\<exists>ticks. (\<forall>e \<in> set ticks. is_tick e) \<and> entries_of i (run cb ticks S) = []"
    using exhausting_drain [where cb = cb and s = S] ex assms(3) by blast
  have 6: "entries_of i S = [] \<longrightarrow>
          (\<forall>es'. (\<forall>e \<in> set es'. \<not> touches i e) \<longrightarrow> attempts i (run cb es' S) = attempts i S)"
  proof (intro impI allI)
    fix es'
    assume e: "entries_of i S = []" and f: "\<forall>e \<in> set es'. \<not> touches i e"
    have "exhausting i u N c0 (run cb es' S)"
      using exhausting_run [where cb = cb and es = es' and s = S] ex assms(3) f by blast
    from exhausting_attempts(1) [OF this]
    have "attempts i (run cb es' S) \<le> length c0 + nat N + 1" .
    moreover have "attempts i S = length c0 + nat N + 1"
      using 2 e len by simp
    moreover have "attempts i S \<le> attempts i (run cb es' S)"
      by (rule attempts_run)
    ultimately show "attempts i (run cb es' S) = attempts i S"
      by linarith
  qed
  from 0 1 2 3 4 5 6 show ?thesis
    unfolding S_def by blast
qed

lemma three_failed_attempts:
  "scheduled_run (\<lambda>k i u. Returned (i = 2))
     \<lparr>queue = [(30000000, 2, ''v'', 0)], meetings = [2 \<mapsto> (30000000, ''v'', 0, 5, True)], calls = []\<rparr>
     0 1 ''u'' 0 2
     [Tick 30000000 30000000, Tick 60000000 60000000, Tick 240000000 240000000, Tick 420000000 420000000]
   = \<lparr>queue = [], meetings = [1 \<mapsto> (420000000, ''u'', 2, 2, True)],
      calls = [(2, ''v''), (1, ''u''), (1, ''u''), (1, ''u'')]\<rparr>"
  by (simp add: scheduled_run_def run_def schedule_meeting_def Let_def heappush_def minutes_def
      process_next_meeting_def join_meeting_eq reschedule_meeting_def remove_meeting_def
      fun_upd_twist)

theorem retry_exhaustion_witness:
  "attempts 1 (scheduled_run (\<lambda>k i u. Returned (i = 2))
     \<lparr>queue = [(30000000, 2, ''v'', 0)], meetings = [2 \<mapsto> (30000000, ''v'', 0, 5, True)], calls = []\<rparr>
     0 1 ''u'' 0 2
     [Tick 30000000 30000000, Tick 60000000 60000000, Tick 240000000 240000000, Tick 420000000 420000000]) = 3
   \<and> attempts 1 (run (\<lambda>k i u. Returned (i = 2))
       [Tick 600000000 600000000, CheckUrgent 600000001, Cancel 2]
       (scheduled_run (\<lambda>k i u. Returned (i = 2))
          \<lparr>queue = [(30000000, 2, ''v'', 0)], meetings = [2 \<mapsto> (30000000, ''v'', 0, 5, True)], calls = []\<rparr>
          0 1 ''u'' 0 2
          [Tick 30000000 30000000, Tick 60000000 60000000, Tick 240000000 240000000, Tick 420000000 420000000])) = 3"
proof -
  let ?cb = "\<lambda>(k::nat) (i::int) (u::string). Returned (i = 2)"
  let ?s0 = "\<lparr>queue = [(30000000, 2, ''v'', 0)], meetings = [2 \<mapsto> (30000000, ''v'', 0, 5, True)], calls = []\<rparr>"
  let ?es = "[Tick 30000000 30000000, Tick 60000000 60000000, Tick 240000000 240000000, Tick 420000000 420000000]"
  let ?S = "scheduled_run ?cb ?s0 0 1 ''u'' 0 2 ?es"
  have h: "(0::int) \<le> 2" "(0::int) \<le> 0 + minutes 1" "\<forall>k u'. ?cb k 1 u' \<noteq> Returned True"
    "\<forall>x \<in> set (queue ?s0). entry_id x \<noteq> 1" "\<forall>e \<in> set ?es. \<not> touches 1 e"
    by (simp_all add: minutes_def entry_id_def)
  note th = retry_exhaustion [where cb = ?cb and es = ?es and u = "''u''" and start = ?s0, OF h]
  have q: "entries_of 1 ?S = []"
    unfolding three_failed_attempts by (simp add: entries_of_def)
  have a0: "attempts 1 ?s0 = 0"
    by (simp add: attempts_def calls_of_def)
  have e: "\<forall>e \<in> set [Tick 600000000 600000000, CheckUrgent 600000001, Cancel 2].
             \<not> touches 1 e"
    by simp
  from th q a0 have a: "attempts 1 ?S = 3"
    by simp
  from th q e
  have "attempts 1 (run ?cb [Tick 600000000 600000000, CheckUrgent 600000001, Cancel 2] ?S)
      = attempts 1 ?S"
    by blast
  with a show ?thesis
    by simp
qed

text \<open>
  The claim as stated fails in four ways. After the third failed attempt with
  max_retries = 2 the meeting is still in the meeting table. When an entry of an earlier
  scheduling of the id is still queued, max_retries = 0 gives two invocations. With
  max_retries = -1 there is one invocation. A meeting scheduled in the past is attempted
  once, at once, and never retried.
\<close>

theorem retry_exhaustion_counterexample:
  "attempts 1 (scheduled_run (\<lambda>k i u. Returned False) init_state 0 1 ''u'' 0 2
     [Tick 60000000 60000000, Tick 240000000 240000000, Tick 420000000 420000000]) = 3
   \<and> entries_of 1 (scheduled_run (\<lambda>k i u. Returned False) init_state 0 1 ''u'' 0 2
     [Tick 60000000 60000000, Tick 240000000 240000000, Tick 420000000 420000000]) = []
   \<and> meetings (scheduled_run (\<lambda>k i u. Returned False) init_state 0 1 ''u'' 0 2
     [Tick 60000000 60000000, Tick 240000000 240000000, Tick 420000000 420000000]) 1
     = Some (420000000, ''u'', 2, 2, True)
   \<and> attempts 1 (scheduled_run (\<lambda>k i u. Returned False)
       (snd (schedule_meeting (\<lambda>k i u. Returned False) 0 1 ''u'' 0 0 init_state))
       0 1 ''u'' 60000000 0
       [Tick 60000000 60000000, Tick 120000000 120000000]) = 2
   \<and> attempts 1 (scheduled_run (\<lambda>k i u. Returned False) init_state 0 1 ''u'' 0 (- 1)
       [Tick 60000000 60000000, Tick 240000000 240000000]) = 1
   \<and> attempts 1 (scheduled_run (\<lambda>k i u. Returned False) init_state 120000001 1 ''u'' 0 2
       [Tick 240000000 240000000, Tick 420000000 420000000]) = 1"
  by (simp add: scheduled_run_def run_def schedule_meeting_def init_state_def Let_def
      heappush_def minutes_def process_next_meeting_def join_meeting_eq reschedule_meeting_def
      remove_meeting_def invoke_callback_def attempts_def calls_of_def entries_of_def
      entry_id_def)

section \<open>Urgency\<close>

text \<open>
  C9. When a meeting is queued, its urgency flag is set exactly when its offset join time
  minus the current time is at most 15 minutes. \<open>check_for_urgent_meetings\<close> turns the
  flag of every table entry on exactly when it was on already or the stored time minus
  the current time is at most 15 minutes, and changes nothing else.
\<close>

theorem urgency_threshold:
  "(now \<le> t + minutes 1 \<longrightarrow>
      meetings (snd (schedule_meeting cb now i u t m s)) i
        = Some (t + minutes 1, u, 0, m, t + minutes 1 - now \<le> minutes 15))
   \<and> (\<forall>tm u' r mx g. meetings s j = Some (tm, u', r, mx, g) \<longrightarrow>
        meetings (check_for_urgent_meetings now s) j
          = Some (tm, u', r, mx, g \<or> tm - now \<le> minutes 15))
   \<and> (meetings s j = None \<longrightarrow> meetings (check_for_urgent_meetings now s) j = None)
   \<and> queue (check_for_urgent_meetings now s) = queue s
   \<and> calls (check_for_urgent_meetings now s) = calls s"
  by (auto simp: schedule_meeting_def check_for_urgent_meetings_def Let_def)

theorem urgency_threshold_witness:
  "meetings (snd (schedule_meeting (\<lambda>k i u. Returned True) 0 3 ''u'' (minutes 19) 5 init_state)) 3
     = Some (minutes 20, ''u'', 0, 5, False)
   \<and> meetings (check_for_urgent_meetings (minutes 6)
        \<lparr>queue = [(minutes 20, 3, ''u'', 0)],
          meetings = [3 \<mapsto> (minutes 20, ''u'', 0, 5, False)], calls = []\<rparr>) 3
     = Some (minutes 20, ''u'', 0, 5, True)
   \<and> meetings (check_for_urgent_meetings (minutes 6)
        \<lparr>queue = [(minutes 20, 3, ''u'', 0)],
          meetings = [3 \<mapsto> (minutes 20, ''u'', 0, 5, False)], calls = []\<rparr>) 4 = None"
proof -
  let ?s = "\<lparr>queue = [(minutes 20, 3, ''u'', 0)],
          meetings = [3 \<mapsto> (minutes 20, ''u'', 0, 5, False)], calls = []\<rparr>"
  note th1 = urgency_threshold [of 0 "minutes 19" "\<lambda>k i u. Returned True" 3 "''u''" 5 init_state]
  note th2 = urgency_threshold [of "minutes 6" _ _ _ _ _ ?s 3]
  note th3 = urgency_threshold [of "minutes 6" _ _ _ _ _ ?s 4]
  have a: "(0::int) \<le> minutes 19 + minutes 1" by (simp add: minutes_def)
  have b: "meetings ?s 3 = Some (minutes 20, ''u'', 0, 5, False)" by simp
  have c: "meetings ?s 4 = None" by simp
  from th1 [THEN conjunct1, rule_format, OF a]
    th2 [THEN conjunct2, THEN conjunct1, rule_format, OF b]
    th3 [THEN conjunct2, THEN conjunct2, THEN conjunct1, rule_format, OF c]
  show ?thesis
    by (simp add: minutes_def)
qed

lemma urgent_step:
  assumes "meetings s i = Some (tm, u, r, mx, True)" and "reschedule_or_check e"
  shows "\<exists>tm' r'. meetings (step cb s e) i = Some (tm', u, r', mx, True)"
proof (cases e)
  case (Reschedule j d now)
  then show ?thesis using assms
    by (auto simp: reschedule_meeting_def Let_def split: option.splits)
next
  case (CheckUrgent now)
  then show ?thesis using assms
    by (simp add: check_for_urgent_meetings_def)
qed (use assms in simp_all)

lemma urgent_run:
  assumes "meetings s i = Some (tm, u, r, mx, True)" and "\<forall>e \<in> set es. reschedule_or_check e"
  shows "\<exists>tm' r'. meetings (run cb es s) i = Some (tm', u, r', mx, True)"
  using assms unfolding run_def
proof (induction es arbitrary: s tm r)
  case Nil
  then show ?case by simp
next
  case (Cons e es)
  from urgent_step [of s i tm u r mx e cb] Cons.prems
  obtain tm' r' where "meetings (step cb s e) i = Some (tm', u, r', mx, True)"
    by auto
  from Cons.IH [OF this] Cons.prems show ?case by simp
qed

text \<open>
  C10. A meeting whose urgency flag is set keeps it, with its url and max retries, through
  every sequence of \<open>reschedule_meeting\<close> calls (any id, any explicit delay) and
  \<open>check_for_urgent_meetings\<close> calls; a fresh \<open>schedule_meeting\<close> for the id
  more than 15 minutes ahead stores the flag false whatever it was.
\<close>

theorem urgency_monotone:
  "(meetings s i = Some (tm, u, r, mx, True) \<and> (\<forall>e \<in> set es. reschedule_or_check e)
      \<longrightarrow> (\<exists>tm' r'. meetings (run cb es s) i = Some (tm', u, r', mx, True)))
   \<and> (now \<le> t + minutes 1 \<and> minutes 15 < t + minutes 1 - now
      \<longrightarrow> meetings (snd (schedule_meeting cb now i u' t mx' s)) i
            = Some (t + minutes 1, u', 0, mx', False))"
  using urgent_run [of s i tm u r mx es cb]
  by (auto simp: schedule_meeting_def Let_def)

theorem urgency_monotone_witness:
  "meetings (run (\<lambda>k i u. Returned False)
       [Reschedule 3 (Some 60) 0, CheckUrgent 5, Reschedule 3 None 7]
       \<lparr>queue = [(100, 3, ''u'', 0)], meetings = [3 \<mapsto> (100, ''u'', 0, 5, True)], calls = []\<rparr>) 3
     = Some (7 + minutes 3, ''u'', 2, 5, True)
   \<and> meetings (snd (schedule_meeting (\<lambda>k i u. Returned False) 0 3 ''v'' (minutes 30) 4
       \<lparr>queue = [(100, 3, ''u'', 0)], meetings = [3 \<mapsto> (100, ''u'', 0, 5, True)], calls = []\<rparr>)) 3
     = Some (minutes 31, ''v'', 0, 4, False)"
proof -
  let ?s = "\<lparr>queue = [(100, 3, ''u'', 0)], meetings = [3 \<mapsto> (100, ''u'', 0, 5, True)],
             calls = []\<rparr>"
  let ?es = "[Reschedule 3 (Some 60) 0, CheckUrgent 5, Reschedule 3 None 7]"
  note th = urgency_monotone [of ?s 3 100 "''u''" 0 5 ?es "\<lambda>k i u. Returned False" 0
      "minutes 30" "''v''" 4]
  have a: "meetings ?s 3 = Some (100, ''u'', 0, 5, True) \<and> (\<forall>e \<in> set ?es. reschedule_or_check e)"
    by simp
  have b: "(0::int) \<le> minutes 30 + minutes 1 \<and> minutes 15 < minutes 30 + minutes 1 - 0"
    by (simp add: minutes_def)
  have c: "meetings (run (\<lambda>k i u. Returned False) ?es ?s) 3 = Some (7 + minutes 3, ''u'', 2, 5, True)"
    by (simp add: run_def reschedule_meeting_def check_for_urgent_meetings_def Let_def
        heappush_def urgent_retry_minutes_def)
  from th [THEN conjunct1, rule_format, OF a] th [THEN conjunct2, rule_format, OF b] c
  show ?thesis
    by (simp add: minutes_def)
qed

section \<open>Segment averages\<close>

lemma dict_get_update:
  "dict_get (AList.update k v d) k' x = (if k' = k then v else dict_get d k' x)"
  by (simp add: dict_get_def update_conv')

lemma add_emotions_keys:
  "fst ` set (add_emotions d es) = fst ` set d \<union> e_name ` set es"
  by (induction es arbitrary: d) (auto simp: dom_update)

lemma add_emotions_distinct:
  "distinct (map fst d) \<Longrightarrow> distinct (map fst (add_emotions d es))"
  by (induction es arbitrary: d) (simp_all add: distinct_update)

lemma add_emotions_get:
  "dict_get (add_emotions d es) n 0 =
     dict_get d n 0 + sum_list (map emotion_score (filter (\<lambda>e. e_name e = n) es))"
  by (induction es arbitrary: d) (simp_all add: dict_get_update)

lemma add_frames_keys:
  "fst ` set (fst (add_frames (d, c) fs))
     = fst ` set d \<union> e_name ` set (concat (map frame_emotions fs))"
  by (induction fs arbitrary: d c) (auto simp: add_emotions_keys)

lemma add_frames_distinct:
  "distinct (map fst d) \<Longrightarrow> distinct (map fst (fst (add_frames (d, c) fs)))"
  by (induction fs arbitrary: d c) (simp_all add: add_emotions_distinct)

lemma add_frames_get:
  "dict_get (fst (add_frames (d, c) fs)) n 0 =
     dict_get d n 0
       + sum_list (map emotion_score (filter (\<lambda>e. e_name e = n) (concat (map frame_emotions fs))))"
  by (induction fs arbitrary: d c) (simp_all add: add_emotions_get)

lemma add_frames_count: "snd (add_frames (d, c) fs) = c + length fs"
  by (induction fs arbitrary: d c) simp_all

lemma map_of_scaled:
  "map_of (map (\<lambda>(name, total). (name, total / k)) d) n
     = map_option (\<lambda>total. total / (k::real)) (map_of d n)"
  by (induction d) auto

lemma map_of_dict_get:
  "map_of d n = (if n \<in> fst ` set d then Some (dict_get d n x) else None)"
  by (auto simp: dict_get_def map_of_eq_None_iff [symmetric] split: option.splits)

text \<open>
  C4. \<open>average_emotions_for_segment\<close> works on exactly the frames whose time t
  satisfies start \<le> t \<le> end, both bounds included. When no frame qualifies the
  result is the empty mapping. The result has one entry per emotion name occurring in a
  selected frame and no other; the score of a name is the sum of the scores listed under
  that name in the selected frames divided by the number of selected frames, whether or
  not every selected frame lists the name.
\<close>

theorem average_emotions_for_segment_spec:
  "((\<forall>f \<in> set frames. \<not> (start \<le> frame_time f \<and> frame_time f \<le> end))
      \<longrightarrow> average_emotions_for_segment frames start end = [])
   \<and> distinct (map fst (average_emotions_for_segment frames start end))
   \<and> map_of (average_emotions_for_segment frames start end) n =
       (if n \<in> e_name ` set (concat (map frame_emotions
                 (filter (\<lambda>f. start \<le> frame_time f \<and> frame_time f \<le> end) frames)))
        then Some (sum_list (map emotion_score (filter (\<lambda>e. e_name e = n)
                     (concat (map frame_emotions
                        (filter (\<lambda>f. start \<le> frame_time f \<and> frame_time f \<le> end) frames)))))
                   / real (length (filter (\<lambda>f. start \<le> frame_time f \<and> frame_time f \<le> end)
                                     frames)))
        else None)"
proof -
  define sel where "sel = filter (\<lambda>f. start \<le> frame_time f \<and> frame_time f \<le> end) frames"
  obtain tot cnt where acc: "add_frames ([], 0) sel = (tot, cnt)"
    by (cases "add_frames ([], 0) sel") auto
  have cnt: "cnt = length sel"
    using add_frames_count [of "[]" 0 sel] acc by simp
  have keys: "fst ` set tot = e_name ` set (concat (map frame_emotions sel))"
    using add_frames_keys [of "[]" 0 sel] acc by simp
  have dist: "distinct (map fst tot)"
    using add_frames_distinct [of "[]" 0 sel] acc by simp
  have get: "dict_get tot n 0
      = sum_list (map emotion_score (filter (\<lambda>e. e_name e = n) (concat (map frame_emotions sel))))"
    using add_frames_get [of "[]" 0 sel n] acc by (simp add: dict_get_def)
  have res: "average_emotions_for_segment frames start end =
      (if sel = [] then [] else map (\<lambda>(name, total). (name, total / real cnt)) tot)"
    by (simp add: average_emotions_for_segment_def sel_def [symmetric] acc)
  have 1: "(\<forall>f \<in> set frames. \<not> (start \<le> frame_time f \<and> frame_time f \<le> end))
      \<longrightarrow> average_emotions_for_segment frames start end = []"
    unfolding res by (auto simp: sel_def filter_empty_conv)
  have fst_scaled: "map fst (map (\<lambda>(name, total). (name, total / real cnt)) tot) = map fst tot"
    by (induction tot) auto
  have 2: "distinct (map fst (average_emotions_for_segment frames start end))"
  proof (cases "sel = []")
    case True
    then show ?thesis unfolding res by simp
  next
    case False
    then show ?thesis unfolding res using dist by (simp only: fst_scaled if_False)
  qed
  have 3: "map_of (average_emotions_for_segment frames start end) n =
       (if n \<in> e_name ` set (concat (map frame_emotions sel))
        then Some (sum_list (map emotion_score (filter (\<lambda>e. e_name e = n)
                     (concat (map frame_emotions sel)))) / real (length sel))
        else None)"
  proof (cases "sel = []")
    case True
    then show ?thesis unfolding res by simp
  next
    case False
    then show ?thesis
      unfolding res
      using map_of_dict_get [of tot n 0] keys get cnt
      by (simp add: map_of_scaled)
  qed
  from 1 2 3 show ?thesis
    unfolding sel_def by blast
qed


theorem average_emotions_for_segment_spec_witness:
  "average_emotions_for_segment
     [\<lparr>f_time = Some 1, f_emotions = Some [\<lparr>e_name = Some ''Joy'', e_score = Some 1\<rparr>,
                                           \<lparr>e_name = Some ''Anger'', e_score = Some (1 / 2)\<rparr>]\<rparr>,
      \<lparr>f_time = Some 2, f_emotions = Some [\<lparr>e_name = Some ''Joy'', e_score = Some 1\<rparr>]\<rparr>]
     (3 / 2) (3 / 2) = []
   \<and> map_of (average_emotions_for_segment
     [\<lparr>f_time = Some 1, f_emotions = Some [\<lparr>e_name = Some ''Joy'', e_score = Some 1\<rparr>,
                                           \<lparr>e_name = Some ''Anger'', e_score = Some (1 / 2)\<rparr>]\<rparr>,
      \<lparr>f_time = Some 2, f_emotions = Some [\<lparr>e_name = Some ''Joy'', e_score = Some 1\<rparr>]\<rparr>]
     1 2) (Some ''Anger'') = Some (1 / 4)"
proof -
  let ?fs = "[\<lparr>f_time = Some 1, f_emotions = Some [\<lparr>e_name = Some ''Joy'', e_score = Some 1\<rparr>,
                                           \<lparr>e_name = Some ''Anger'', e_score = Some (1 / 2)\<rparr>]\<rparr>,
      \<lparr>f_time = Some 2, f_emotions = Some [\<lparr>e_name = Some ''Joy'', e_score = Some 1\<rparr>]\<rparr>]"
  have h: "\<forall>f \<in> set ?fs. \<not> (3 / 2 \<le> frame_time f \<and> frame_time f \<le> 3 / 2)"
    by (simp add: frame_time_def)
  note th1 = average_emotions_for_segment_spec [of ?fs "3 / 2" "3 / 2"]
  note th2 = average_emotions_for_segment_spec [of ?fs 1 2 "Some ''Anger''"]
  have a: "average_emotions_for_segment ?fs (3 / 2) (3 / 2) = []"
    using th1 [THEN conjunct1, THEN mp, OF h] .
  have b: "map_of (average_emotions_for_segment ?fs 1 2) (Some ''Anger'') = Some (1 / 4)"
    using th2 [THEN conjunct2, THEN conjunct2]
    by (simp add: frame_time_def frame_emotions_def emotion_score_def)
  from a b show ?thesis by blast
qed

section \<open>Answer windows\<close>











section \<open>Question detection\<close>

text \<open>
  C7. The line \<open>00:10 | Interviewer: Did Daniel Kraft send you the report?\<close> has the
  form timestamp | speaker: text; its speaker is not the candidate, its text has a
  question mark and none of the deny-list phrases, and yet it produces no question: the
  source binds both \<open>speaker\<close> and \<open>text\<close> to everything after the first bar, so
  the candidate's name anywhere in the line drops it. The two lines the claim names
  behave as it says.
\<close>

theorem question_filter_failing_input:
  "\<not> contains ''Daniel Kraft'' ''Interviewer''
   \<and> CHR ''?'' \<in> set ''Did Daniel Kraft send you the report?''
   \<and> \<not> list_ex (\<lambda>pattern. contains pattern (lower ''Did Daniel Kraft send you the report?''))
         irrelevant_patterns
   \<and> relevant_questions (candidate_questions
         ''00:10 | Interviewer: Did Daniel Kraft send you the report?'') = []
   \<and> relevant_questions (candidate_questions
         ''00:05 | Interviewer: How are you doing today?'') = []
   \<and> relevant_questions (candidate_questions
         ''00:10 | Interviewer: Can you describe your sales process?'')
     = [\<lparr>q_timestamp = ''00:10'', q_time_seconds = 10,
         q_text = ''Interviewer: Can you describe your sales process?'', q_index = 0\<rparr>]"
  by code_simp

section \<open>Frame extraction\<close>

lemma strip_prefix_append [simp]: "strip_prefix p (p @ r) = Some r"
  by (induction p) simp_all

lemma strip_prefix_iff: "strip_prefix p s = Some r \<longleftrightarrow> s = p @ r"
  using strip_prefix_Some [of p s r] by auto

lemma strip_prefix_None: "strip_prefix p s = None \<longleftrightarrow> (\<forall>r. s \<noteq> p @ r)"
proof (cases "strip_prefix p s")
  case None
  then show ?thesis using strip_prefix_iff [of p s] by auto
next
  case (Some r)
  then show ?thesis using strip_prefix_iff [of p s r] by auto
qed

lemma find_literal_first:
  assumes "find_literal p s = Some (b, r)" and "p \<noteq> []"
  shows "\<forall>a c. b @ p = a @ p @ c \<longrightarrow> a = b"
  using assms(1)
proof (induction s arbitrary: b)
  case Nil
  then show ?case using assms(2) by simp
next
  case (Cons x xs)
  show ?case
  proof (cases "strip_prefix p (x # xs)")
    case (Some rest)
    with Cons.prems have b: "b = []" by simp
    show ?thesis
    proof (intro allI impI)
      fix a c
      assume "b @ p = a @ p @ c"
      then have "length p = length a + length p + length c"
        unfolding b by (metis append_Nil length_append add.assoc)
      then show "a = b" unfolding b by simp
    qed
  next
    case None
    with Cons.prems obtain b' where f: "find_literal p xs = Some (b', r)" and b: "b = x # b'"
      by (auto split: option.splits)
    have s: "x # xs = b @ p @ r"
      using find_literal_Some [OF Cons.prems] .
    show ?thesis
    proof (intro allI impI)
      fix a c
      assume e: "b @ p = a @ p @ c"
      show "a = b"
      proof (cases a)
        case Nil
        then have "x # xs = p @ (c @ r)"
          using s e by simp
        with None show ?thesis
          unfolding strip_prefix_None by blast
      next
        case (Cons y a')
        with e b have "y = x" and "b' @ p = a' @ p @ c"
          by simp_all
        with Cons.IH [OF f] have "a' = b'" by blast
        then show ?thesis using Cons \<open>y = x\<close> b by simp
      qed
    qed
  qed
qed

lemma find_literal_complete:
  assumes "\<forall>a c. b @ p = a @ p @ c \<longrightarrow> a = b" and "p \<noteq> []"
  shows "find_literal p (b @ p @ r) = Some (b, r)"
  using assms(1)
proof (induction b)
  case Nil
  obtain x xs where p: "p = x # xs"
    using assms(2) by (cases p) auto
  have "strip_prefix p (p @ r) = Some r" by simp
  then show ?case
    unfolding p by simp
next
  case (Cons x b)
  have n: "strip_prefix p ((x # b) @ p @ r) = None"
  proof (rule ccontr)
    assume "strip_prefix p ((x # b) @ p @ r) \<noteq> None"
    then obtain r' where e: "(x # b) @ p @ r = p @ r'"
      unfolding strip_prefix_None by auto
    have "length p \<le> length ((x # b) @ p)" by simp
    then have "take (length p) ((x # b) @ p @ r) = take (length p) ((x # b) @ p)"
      by (metis append_assoc take_append diff_is_0_eq take_0 append_Nil2)
    moreover have "take (length p) (p @ r') = p" by simp
    ultimately have "p = take (length p) ((x # b) @ p)"
      using e by metis
    then have "(x # b) @ p = [] @ p @ drop (length p) ((x # b) @ p)"
      by (metis append_Nil append_take_drop_id)
    with Cons.prems have "[] = x # b"
      by blast
    then show False by simp
  qed
  have "\<forall>a c. b @ p = a @ p @ c \<longrightarrow> a = b"
  proof (intro allI impI)
    fix a c
    assume "b @ p = a @ p @ c"
    then have "(x # b) @ p = (x # a) @ p @ c" by simp
    with Cons.prems have "x # a = x # b" by blast
    then show "a = b" by simp
  qed
  from Cons.IH [OF this] n show ?case
    by simp
qed

lemma find_literal_iff:
  assumes "p \<noteq> []"
  shows "find_literal p s = Some (b, r)
     \<longleftrightarrow> s = b @ p @ r \<and> (\<forall>a c. b @ p = a @ p @ c \<longrightarrow> a = b)"
  using find_literal_Some [of p s b r] find_literal_first [OF _ assms, of s b r]
    find_literal_complete [OF _ assms, of b r]
  by blast

lemma find_char_iff:
  "find_literal [x] s = Some (b, r) \<longleftrightarrow> s = b @ x # r \<and> x \<notin> set b"
proof -
  have "(\<forall>a c. b @ [x] = a @ [x] @ c \<longrightarrow> a = b) \<longleftrightarrow> x \<notin> set b"
  proof
    assume h: "\<forall>a c. b @ [x] = a @ [x] @ c \<longrightarrow> a = b"
    show "x \<notin> set b"
    proof
      assume "x \<in> set b"
      then obtain a c where "b = a @ x # c"
        by (auto simp: in_set_conv_decomp)
      then have "b @ [x] = a @ [x] @ (c @ [x])" by simp
      with h have "a = b" by blast
      with \<open>b = a @ x # c\<close> show False by simp
    qed
  next
    assume n: "x \<notin> set b"
    show "\<forall>a c. b @ [x] = a @ [x] @ c \<longrightarrow> a = b"
    proof (intro allI impI)
      fix a c
      assume e: "b @ [x] = a @ [x] @ c"
      show "a = b"
      proof (cases c rule: rev_cases)
        case Nil
        with e show ?thesis by simp
      next
        case (snoc c' y)
        with e have "b = a @ x # c'" by simp
        with n show ?thesis by simp
      qed
    qed
  qed
  then show ?thesis
    using find_literal_iff [of "[x]" s b r] by simp
qed

lemma takeWhile_run:
  assumes "list_all P xs" and "ys \<noteq> [] \<longrightarrow> \<not> P (hd ys)"
  shows "takeWhile P (xs @ ys) = xs" and "dropWhile P (xs @ ys) = ys"
proof -
  have t: "takeWhile P ys = []" and d: "dropWhile P ys = ys"
    using assms(2) by (cases ys; simp)+
  show "takeWhile P (xs @ ys) = xs"
    using assms(1) t by (simp add: list_all_iff)
  show "dropWhile P (xs @ ys) = ys"
    using assms(1) d by (simp add: list_all_iff)
qed

lemma not_digit_comma: "\<not> is_digit CHR '',''"
  by (simp add: is_digit_def)

lemma not_space_t: "\<not> is_space CHR ''t''"
  by (simp add: is_space_def)

lemma not_space_s: "\<not> is_space CHR ''s''"
  by (simp add: is_space_def)

lemma not_time_e: "\<not> is_time_char CHR ''e''"
  by (simp add: is_time_char_def is_digit_def)

lemma not_time_E: "\<not> is_time_char CHR ''E''"
  by (simp add: is_time_char_def is_digit_def)

lemma match_face_complete:
  assumes "face_block_ok b"
  shows "match_face (face_block_text b @ rest) = Some (fb_time b, fb_emotions b, rest)"
proof -
  let ?lit = "''emotions=[''"
  define s4 where "s4 = fb_emotions b @ '']'' @ rest"
  define x where "x = fb_between b @ ?lit @ s4"
  define s3 where "s3 = fb_time b @ x"
  define s2 where "s2 = fb_space b @ ''time='' @ s3"
  define s1 where "s1 = fb_frame b @ '','' @ s2"
  have ok: "fb_frame b \<noteq> []" "list_all is_digit (fb_frame b)" "list_all is_space (fb_space b)"
    "fb_time b \<noteq> []" "list_all is_time_char (fb_time b)"
    "fb_between b \<noteq> [] \<longrightarrow> \<not> is_time_char (hd (fb_between b))"
    "\<forall>a c. fb_between b @ ?lit = a @ ?lit @ c \<longrightarrow> a = fb_between b"
    "CHR '']'' \<notin> set (fb_emotions b)"
    using assms unfolding face_block_ok_def by blast+
  have 0: "strip_prefix ''FacePrediction(frame='' (face_block_text b @ rest) = Some s1"
    unfolding strip_prefix_iff
    by (simp add: face_block_text_def s1_def s2_def s3_def x_def s4_def)
  have 1: "takeWhile is_digit s1 = fb_frame b" "dropWhile is_digit s1 = '','' @ s2"
    unfolding s1_def using takeWhile_run [OF ok(2), of "'','' @ s2"] not_digit_comma by simp_all
  have 2: "strip_prefix '','' ('','' @ s2) = Some s2"
    by (rule strip_prefix_append)
  have 3: "dropWhile is_space s2 = ''time='' @ s3"
    unfolding s2_def using takeWhile_run(2) [OF ok(3), of "''time='' @ s3"] not_space_t by simp
  have 4: "strip_prefix ''time='' (''time='' @ s3) = Some s3"
    by (rule strip_prefix_append)
  have hx: "x \<noteq> [] \<longrightarrow> \<not> is_time_char (hd x)"
  proof (cases "fb_between b")
    case Nil
    then show ?thesis unfolding x_def using not_time_e by simp
  next
    case (Cons y ys)
    then show ?thesis unfolding x_def using ok(6) by simp
  qed
  have 5: "takeWhile is_time_char s3 = fb_time b" "dropWhile is_time_char s3 = x"
    unfolding s3_def using takeWhile_run [OF ok(5) hx] by simp_all
  have 6: "find_literal ?lit x = Some (fb_between b, s4)"
    unfolding x_def using find_literal_complete [OF ok(7), of s4] by simp
  have 7: "find_literal '']'' s4 = Some (fb_emotions b, rest)"
    unfolding s4_def find_char_iff using ok(8) by simp
  show ?thesis
    unfolding match_face_def
    by (simp only: 0 1 2 3 4 5 6 7 ok(1,4) option.case prod.case if_False)
qed

lemma match_face_sound:
  assumes "match_face s = Some (t, e, rest)"
  shows "\<exists>b. face_block_ok b \<and> fb_time b = t \<and> fb_emotions b = e
           \<and> s = face_block_text b @ rest"
proof -
  let ?lit = "''emotions=[''"
  from assms obtain s1 s2 s3 mid s4 where
    1: "strip_prefix ''FacePrediction(frame='' s = Some s1"
    and d: "takeWhile is_digit s1 \<noteq> []"
    and 2: "strip_prefix '','' (dropWhile is_digit s1) = Some s2"
    and 3: "strip_prefix ''time='' (dropWhile is_space s2) = Some s3"
    and t: "t = takeWhile is_time_char s3" "t \<noteq> []"
    and 4: "find_literal ?lit (dropWhile is_time_char s3) = Some (mid, s4)"
    and 5: "find_literal '']'' s4 = Some (e, rest)"
    unfolding match_face_def by (auto split: option.splits if_splits)
  define b where "b = \<lparr>fb_frame = takeWhile is_digit s1, fb_space = takeWhile is_space s2,
      fb_time = t, fb_between = mid, fb_emotions = e\<rparr>"
  have a: "s = ''FacePrediction(frame='' @ s1"
    using 1 unfolding strip_prefix_iff .
  have b1: "s1 = takeWhile is_digit s1 @ '','' @ s2"
    using 2 takeWhile_dropWhile_id [of is_digit s1] unfolding strip_prefix_iff by simp
  have c: "s2 = takeWhile is_space s2 @ ''time='' @ s3"
    using 3 takeWhile_dropWhile_id [of is_space s2] unfolding strip_prefix_iff by simp
  have dw: "dropWhile is_time_char s3 = mid @ ?lit @ s4"
    using find_literal_Some [OF 4] .
  have e3: "s3 = t @ mid @ ?lit @ s4"
    using dw takeWhile_dropWhile_id [of is_time_char s3] t(1) by simp
  have f: "s4 = e @ '']'' @ rest" and nb: "CHR '']'' \<notin> set e"
    using 5 unfolding find_char_iff by simp_all
  have first: "\<forall>a c. mid @ ?lit = a @ ?lit @ c \<longrightarrow> a = mid"
    using find_literal_first [OF 4] by simp
  have hm: "mid \<noteq> [] \<longrightarrow> \<not> is_time_char (hd mid)"
  proof
    assume m: "mid \<noteq> []"
    then have "dropWhile is_time_char s3 \<noteq> []" using dw by simp
    from hd_dropWhile [OF this] have "\<not> is_time_char (hd (dropWhile is_time_char s3))" .
    then show "\<not> is_time_char (hd mid)" using dw m by simp
  qed
  have ok: "face_block_ok b"
    unfolding face_block_ok_def b_def using d t(2) first hm nb
    by (auto simp: list_all_iff t(1) dest: set_takeWhileD)
  have "s = ''FacePrediction(frame='' @ takeWhile is_digit s1 @ '','' @ takeWhile is_space s2
              @ ''time='' @ t @ mid @ ?lit @ e @ '']'' @ rest"
    using a b1 c e3 f by metis
  then have "s = face_block_text b @ rest"
    by (simp add: face_block_text_def b_def)
  with ok show ?thesis
    unfolding b_def by (intro exI [of _ b]) (simp add: b_def)
qed

lemma match_face_iff:
  "match_face s = Some (t, e, rest)
     \<longleftrightarrow> (\<exists>b. face_block_ok b \<and> fb_time b = t \<and> fb_emotions b = e
              \<and> s = face_block_text b @ rest)"
  using match_face_sound [of s t e rest] match_face_complete by auto

lemma not_quote_run:
  assumes "\<forall>c \<in> set n. \<not> is_quote c" and "is_quote q"
  shows "takeWhile (\<lambda>c. \<not> is_quote c) (n @ q # r) = n"
    and "dropWhile (\<lambda>c. \<not> is_quote c) (n @ q # r) = q # r"
  using assms by (simp_all add: takeWhile_tail dropWhile_append3)

lemma match_emotion_complete:
  assumes "emotion_block_ok b" and "rest \<noteq> [] \<longrightarrow> \<not> is_time_char (hd rest)"
  shows "match_emotion (emotion_block_text b @ rest) = Some (eb_name b, eb_score b, rest)"
proof -
  define s5 where "s5 = eb_score b @ rest"
  define s4 where "s4 = eb_space b @ ''score='' @ s5"
  define s3 where "s3 = '','' @ s4"
  define s2 where "s2 = eb_name b @ eb_close b # s3"
  have ok: "is_quote (eb_open b)" "is_quote (eb_close b)" "eb_name b \<noteq> []"
    "\<forall>c \<in> set (eb_name b). \<not> is_quote c" "list_all is_space (eb_space b)"
    "eb_score b \<noteq> []" "list_all is_time_char (eb_score b)"
    using assms(1) unfolding emotion_block_ok_def by blast+
  have 0: "strip_prefix ''EmotionScore(name='' (emotion_block_text b @ rest)
      = Some (eb_open b # s2)"
    unfolding strip_prefix_iff
    by (simp add: emotion_block_text_def s2_def s3_def s4_def s5_def)
  have 1: "takeWhile (\<lambda>c. \<not> is_quote c) s2 = eb_name b"
    "dropWhile (\<lambda>c. \<not> is_quote c) s2 = eb_close b # s3"
    unfolding s2_def using not_quote_run [OF ok(4) ok(2)] by simp_all
  have 2: "strip_prefix '','' s3 = Some s4"
    unfolding s3_def by (rule strip_prefix_append)
  have 3: "dropWhile is_space s4 = ''score='' @ s5"
    unfolding s4_def using takeWhile_run(2) [OF ok(5), of "''score='' @ s5"] not_space_s by simp
  have 4: "strip_prefix ''score='' (''score='' @ s5) = Some s5"
    by (rule strip_prefix_append)
  have 5: "takeWhile is_time_char s5 = eb_score b" "dropWhile is_time_char s5 = rest"
    unfolding s5_def using takeWhile_run [OF ok(7) assms(2)] by simp_all
  show ?thesis
    unfolding match_emotion_def
    by (simp only: 0 1 2 3 4 5 ok(1,3,6) option.case list.case prod.case simp_thms if_False)
qed

lemma match_emotion_sound:
  assumes "match_emotion s = Some (n, v, rest)"
  shows "\<exists>b. emotion_block_ok b \<and> eb_name b = n \<and> eb_score b = v
           \<and> s = emotion_block_text b @ rest \<and> (rest \<noteq> [] \<longrightarrow> \<not> is_time_char (hd rest))"
proof -
  from assms obtain s1 q s2 q' s3 s4 s5 where
    1: "strip_prefix ''EmotionScore(name='' s = Some s1"
    and 2: "s1 = q # s2" and q: "is_quote q"
    and n: "n = takeWhile (\<lambda>c. \<not> is_quote c) s2" "n \<noteq> []"
    and 3: "dropWhile (\<lambda>c. \<not> is_quote c) s2 = q' # s3"
    and 4: "strip_prefix '','' s3 = Some s4"
    and 5: "strip_prefix ''score='' (dropWhile is_space s4) = Some s5"
    and v: "v = takeWhile is_time_char s5" "v \<noteq> []"
    and r: "rest = dropWhile is_time_char s5"
    unfolding match_emotion_def by (auto split: option.splits if_splits list.splits)
  define b where "b = \<lparr>eb_open = q, eb_name = n, eb_close = q',
      eb_space = takeWhile is_space s4, eb_score = v\<rparr>"
  have q': "is_quote q'"
    using hd_dropWhile [of "\<lambda>c. \<not> is_quote c" s2] 3 by simp
  have a: "s = ''EmotionScore(name='' @ q # s2"
    using 1 2 unfolding strip_prefix_iff by simp
  have b2: "s2 = n @ q' # s3"
    using 3 takeWhile_dropWhile_id [of "\<lambda>c. \<not> is_quote c" s2] n(1) by simp
  have c: "s3 = '','' @ s4"
    using 4 unfolding strip_prefix_iff .
  have d: "s4 = takeWhile is_space s4 @ ''score='' @ s5"
    using 5 takeWhile_dropWhile_id [of is_space s4] unfolding strip_prefix_iff by simp
  have e: "s5 = v @ rest"
    using v(1) r by simp
  have hr: "rest \<noteq> [] \<longrightarrow> \<not> is_time_char (hd rest)"
    unfolding r using hd_dropWhile [of is_time_char s5] by blast
  have ok: "emotion_block_ok b"
    unfolding emotion_block_ok_def b_def using q q' n(2) v(2)
    by (auto simp: list_all_iff n(1) v(1) dest: set_takeWhileD)
  have "s = ''EmotionScore(name='' @ q # n @ q' # '','' @ takeWhile is_space s4
              @ ''score='' @ v @ rest"
    using a b2 c d e by metis
  then have "s = emotion_block_text b @ rest"
    by (simp add: emotion_block_text_def b_def)
  with ok hr show ?thesis
    by (intro exI [of _ b]) (simp add: b_def)
qed

lemma match_emotion_iff:
  "match_emotion s = Some (n, v, rest)
     \<longleftrightarrow> (\<exists>b. emotion_block_ok b \<and> eb_name b = n \<and> eb_score b = v
              \<and> s = emotion_block_text b @ rest
              \<and> (rest \<noteq> [] \<longrightarrow> \<not> is_time_char (hd rest)))"
  using match_emotion_sound [of s n v rest] match_emotion_complete by auto

lemma decimal_snoc:
  "decimal (ds @ [c]) = decimal ds * 10 + (int (of_char c) - 48)"
proof -
  have "decimal (ds @ [c]) =
      (\<Sum>k < length ds. (int (of_char ((ds @ [c]) ! k)) - 48) * 10 ^ (length ds - k))
        + (int (of_char c) - 48)"
    by (simp add: decimal_def)
  also have "(\<Sum>k < length ds. (int (of_char ((ds @ [c]) ! k)) - 48) * 10 ^ (length ds - k))
      = (\<Sum>k < length ds. ((int (of_char (ds ! k)) - 48) * 10 ^ (length ds - 1 - k)) * 10)"
  proof (rule sum.cong)
    fix k
    assume "k \<in> {..<length ds}"
    then have k: "k < length ds" by simp
    then have "length ds - k = Suc (length ds - 1 - k)" by simp
    then show "(int (of_char ((ds @ [c]) ! k)) - 48) * 10 ^ (length ds - k)
        = (int (of_char (ds ! k)) - 48) * 10 ^ (length ds - 1 - k) * 10"
      using k by (simp add: nth_append)
  qed simp
  also have "\<dots> = decimal ds * 10"
    by (simp add: decimal_def sum_distrib_right)
  finally show ?thesis .
qed

lemma digits_value_snoc:
  "digits_value acc (ds @ [c]) = digits_value acc ds * 10 + (int (of_char c) - 48)"
  by (induction ds arbitrary: acc) simp_all

lemma digits_value_decimal: "digits_value 0 ds = decimal ds"
proof (induction ds rule: rev_induct)
  case Nil
  then show ?case by (simp add: decimal_def)
next
  case (snoc c ds)
  then show ?case by (simp add: digits_value_snoc decimal_snoc)
qed

lemma not_digit_dot: "\<not> is_digit CHR ''.''"
  by (simp add: is_digit_def)

lemma py_float_int:
  assumes "list_all is_digit a" and "a \<noteq> []"
  shows "py_float a = Some (real_of_int (decimal a))"
proof -
  have tw: "takeWhile is_digit a = a" "dropWhile is_digit a = []"
    using assms(1) by (simp_all add: list_all_iff)
  show ?thesis
    unfolding py_float_def Let_def tw using assms(2) by (simp add: digits_value_decimal)
qed

lemma py_float_point:
  assumes "list_all is_digit a" and "list_all is_digit b" and "a \<noteq> [] \<or> b \<noteq> []"
  shows "py_float (a @ ''.'' @ b)
      = Some (real_of_int (decimal a) + real_of_int (decimal b) / 10 ^ length b)"
proof -
  have tw: "takeWhile is_digit (a @ ''.'' @ b) = a"
    "dropWhile is_digit (a @ ''.'' @ b) = ''.'' @ b"
    using takeWhile_run [OF assms(1), of "''.'' @ b"] not_digit_dot by simp_all
  show ?thesis
    unfolding py_float_def Let_def tw using assms(2,3) by (simp add: digits_value_decimal)
qed

lemma py_float_shape:
  assumes "py_float s = Some v"
  shows "\<exists>a b. list_all is_digit a \<and> list_all is_digit b
           \<and> ((s = a \<and> a \<noteq> []) \<or> (s = a @ ''.'' @ b \<and> (a \<noteq> [] \<or> b \<noteq> [])))"
proof (cases "dropWhile is_digit s")
  case Nil
  then have "takeWhile is_digit s = s"
    using takeWhile_dropWhile_id [of is_digit s] by simp
  then have "list_all is_digit s"
    by (metis list_all_iff set_takeWhileD)
  moreover have "s \<noteq> []"
    using assms Nil by (auto simp: py_float_def)
  ultimately show ?thesis
    by (intro exI [of _ s] exI [of _ "[]"]) simp
next
  case (Cons c cs)
  with assms have c: "c = CHR ''.''" and d: "list_all is_digit cs"
    and ne: "takeWhile is_digit s \<noteq> [] \<or> cs \<noteq> []"
    by (auto simp: py_float_def Let_def split: if_splits)
  have "s = takeWhile is_digit s @ ''.'' @ cs"
    using takeWhile_dropWhile_id [of is_digit s] Cons c by simp
  moreover have "list_all is_digit (takeWhile is_digit s)"
    by (auto simp: list_all_iff dest: set_takeWhileD)
  ultimately show ?thesis
    using d ne by (intro exI [of _ "takeWhile is_digit s"] exI [of _ cs]) auto
qed

lemma of_char_inj_nat: "(of_char c :: nat) = of_char d \<longleftrightarrow> c = d"
  by (metis char_of_char)

lemma range_cases:
  fixes n :: nat
  assumes "48 \<le> n" and "n \<le> 57"
  shows "n = 48 \<or> n = 49 \<or> n = 50 \<or> n = 51 \<or> n = 52 \<or> n = 53 \<or> n = 54 \<or> n = 55
     \<or> n = 56 \<or> n = 57"
  using assms by presburger

lemma is_digit_chars: "is_digit c \<longleftrightarrow> c \<in> set ''0123456789''"
proof
  assume "is_digit c"
  then have "(48::nat) \<le> of_char c" "of_char c \<le> (57::nat)"
    by (simp_all add: is_digit_def)
  then have "of_char c = (48::nat) \<or> of_char c = (49::nat) \<or> of_char c = (50::nat)
      \<or> of_char c = (51::nat) \<or> of_char c = (52::nat) \<or> of_char c = (53::nat)
      \<or> of_char c = (54::nat) \<or> of_char c = (55::nat) \<or> of_char c = (56::nat)
      \<or> of_char c = (57::nat)"
    using range_cases [of "of_char c"] by blast
  moreover have "(of_char CHR ''0'' :: nat) = 48" "(of_char CHR ''1'' :: nat) = 49"
    "(of_char CHR ''2'' :: nat) = 50" "(of_char CHR ''3'' :: nat) = 51"
    "(of_char CHR ''4'' :: nat) = 52" "(of_char CHR ''5'' :: nat) = 53"
    "(of_char CHR ''6'' :: nat) = 54" "(of_char CHR ''7'' :: nat) = 55"
    "(of_char CHR ''8'' :: nat) = 56" "(of_char CHR ''9'' :: nat) = 57"
    by simp_all
  ultimately have "c = CHR ''0'' \<or> c = CHR ''1'' \<or> c = CHR ''2'' \<or> c = CHR ''3''
      \<or> c = CHR ''4'' \<or> c = CHR ''5'' \<or> c = CHR ''6'' \<or> c = CHR ''7''
      \<or> c = CHR ''8'' \<or> c = CHR ''9''"
    by (metis of_char_inj_nat)
  then show "c \<in> set ''0123456789''"
    by auto
next
  assume "c \<in> set ''0123456789''"
  then show "is_digit c"
    by (auto simp: is_digit_def)
qed

lemma is_space_chars:
  "is_space c \<longleftrightarrow> c \<in> {CHR 0x09, CHR 0x0A, CHR 0x0B, CHR 0x0C, CHR 0x0D,
                          CHR 0x1C, CHR 0x1D, CHR 0x1E, CHR 0x1F, CHR '' ''}"
proof
  assume "is_space c"
  then have "of_char c = (9::nat) \<or> of_char c = (10::nat) \<or> of_char c = (11::nat)
      \<or> of_char c = (12::nat) \<or> of_char c = (13::nat) \<or> of_char c = (28::nat)
      \<or> of_char c = (29::nat) \<or> of_char c = (30::nat) \<or> of_char c = (31::nat)
      \<or> of_char c = (32::nat)"
    by (simp add: is_space_def)
  moreover have "(of_char (CHR 0x09) :: nat) = 9" "(of_char (CHR 0x0A) :: nat) = 10"
    "(of_char (CHR 0x0B) :: nat) = 11" "(of_char (CHR 0x0C) :: nat) = 12"
    "(of_char (CHR 0x0D) :: nat) = 13" "(of_char (CHR 0x1C) :: nat) = 28"
    "(of_char (CHR 0x1D) :: nat) = 29" "(of_char (CHR 0x1E) :: nat) = 30"
    "(of_char (CHR 0x1F) :: nat) = 31" "(of_char CHR '' '' :: nat) = 32"
    by simp_all
  ultimately have "c = CHR 0x09 \<or> c = CHR 0x0A \<or> c = CHR 0x0B \<or> c = CHR 0x0C
      \<or> c = CHR 0x0D \<or> c = CHR 0x1C \<or> c = CHR 0x1D \<or> c = CHR 0x1E
      \<or> c = CHR 0x1F \<or> c = CHR '' ''"
    by (metis of_char_inj_nat)
  then show "c \<in> {CHR 0x09, CHR 0x0A, CHR 0x0B, CHR 0x0C, CHR 0x0D,
                          CHR 0x1C, CHR 0x1D, CHR 0x1E, CHR 0x1F, CHR '' ''}"
    by auto
next
  assume "c \<in> {CHR 0x09, CHR 0x0A, CHR 0x0B, CHR 0x0C, CHR 0x0D,
                          CHR 0x1C, CHR 0x1D, CHR 0x1E, CHR 0x1F, CHR '' ''}"
  then show "is_space c"
    by (auto simp: is_space_def)
qed

lemma match_face_other:
  assumes "c \<noteq> CHR ''F''"
  shows "match_face (c # cs) = None"
  using assms by (simp add: match_face_def)

lemma match_emotion_other:
  assumes "c \<noteq> CHR ''E''"
  shows "match_emotion (c # cs) = None"
  using assms by (simp add: match_emotion_def)

lemma findall_face_skip:
  assumes "CHR ''F'' \<notin> set sep"
  shows "findall_face (sep @ s) = findall_face s"
  using assms by (induction sep) (auto simp: match_face_other)

lemma findall_emotion_skip:
  assumes "CHR ''E'' \<notin> set sep"
  shows "findall_emotion (sep @ s) = findall_emotion s"
  using assms by (induction sep) (auto simp: match_emotion_other)

lemma findall_face_match:
  assumes "match_face s = Some (t, e, rest)"
  shows "findall_face s = (t, e) # findall_face rest"
proof -
  from assms have "s \<noteq> []"
    by (auto simp: match_face_def)
  then obtain c cs where "s = c # cs"
    by (cases s) auto
  with assms show ?thesis by simp
qed

lemma findall_emotion_match:
  assumes "match_emotion s = Some (n, v, rest)"
  shows "findall_emotion s = (n, v) # findall_emotion rest"
proof -
  from assms have "s \<noteq> []"
    by (auto simp: match_emotion_def)
  then obtain c cs where "s = c # cs"
    by (cases s) auto
  with assms show ?thesis by simp
qed

lemma findall_face_text:
  assumes "\<forall>(sep, b) \<in> set items. CHR ''F'' \<notin> set sep \<and> face_block_ok b"
    and "CHR ''F'' \<notin> set tail"
  shows "findall_face (face_text items tail) = map (\<lambda>(sep, b). (fb_time b, fb_emotions b)) items"
  using assms(1)
proof (induction items)
  case Nil
  have "findall_face (tail @ []) = findall_face []"
    using assms(2) by (rule findall_face_skip)
  then show ?case by (simp add: face_text_def)
next
  case (Cons item items)
  obtain sep b where item: "item = (sep, b)" by (cases item) auto
  have sep: "CHR ''F'' \<notin> set sep" and ok: "face_block_ok b"
    using Cons.prems item by auto
  have "face_text (item # items) tail = sep @ face_block_text b @ face_text items tail"
    by (simp add: face_text_def item)
  then have "findall_face (face_text (item # items) tail)
      = findall_face (face_block_text b @ face_text items tail)"
    using findall_face_skip [OF sep] by simp
  also have "\<dots> = (fb_time b, fb_emotions b) # findall_face (face_text items tail)"
    using findall_face_match [OF match_face_complete [OF ok]] .
  finally show ?case
    using Cons.IH Cons.prems by (simp add: item)
qed

lemma emotion_items_head:
  "concat (map (\<lambda>(b, sep). emotion_block_text b @ sep) items) \<noteq> [] \<longrightarrow>
     \<not> is_time_char (hd (concat (map (\<lambda>(b, sep). emotion_block_text b @ sep) items)))"
proof (cases items)
  case Nil
  then show ?thesis by simp
next
  case (Cons item items')
  obtain b sep where "item = (b, sep)" by (cases item) auto
  then show ?thesis
    using Cons not_time_E by (simp add: emotion_block_text_def)
qed

lemma findall_emotion_items:
  assumes "\<forall>(b, sep) \<in> set items. emotion_block_ok b \<and> CHR ''E'' \<notin> set sep
             \<and> (sep \<noteq> [] \<longrightarrow> \<not> is_time_char (hd sep))"
  shows "findall_emotion (concat (map (\<lambda>(b, sep). emotion_block_text b @ sep) items))
      = map (\<lambda>(b, sep). (eb_name b, eb_score b)) items"
  using assms
proof (induction items)
  case Nil
  then show ?case by simp
next
  case (Cons item items)
  obtain b sep where item: "item = (b, sep)" by (cases item) auto
  let ?R = "concat (map (\<lambda>(b, sep). emotion_block_text b @ sep) items)"
  have ok: "emotion_block_ok b" and sep: "CHR ''E'' \<notin> set sep"
    and hs: "sep \<noteq> [] \<longrightarrow> \<not> is_time_char (hd sep)"
    using Cons.prems item by auto
  have hr: "sep @ ?R \<noteq> [] \<longrightarrow> \<not> is_time_char (hd (sep @ ?R))"
    using hs emotion_items_head [of items] by (cases sep) simp_all
  have "findall_emotion (emotion_block_text b @ sep @ ?R)
      = (eb_name b, eb_score b) # findall_emotion (sep @ ?R)"
    using findall_emotion_match [OF match_emotion_complete [OF ok hr]] .
  also have "findall_emotion (sep @ ?R) = findall_emotion ?R"
    using findall_emotion_skip [OF sep] .
  finally show ?case
    using Cons.IH Cons.prems by (simp add: item)
qed

lemma findall_emotion_text:
  assumes "CHR ''E'' \<notin> set lead"
    and "\<forall>(b, sep) \<in> set items. emotion_block_ok b \<and> CHR ''E'' \<notin> set sep
             \<and> (sep \<noteq> [] \<longrightarrow> \<not> is_time_char (hd sep))"
  shows "findall_emotion (emotion_list_text lead items)
      = map (\<lambda>(b, sep). (eb_name b, eb_score b)) items"
  unfolding emotion_list_text_def
  using findall_emotion_skip [OF assms(1)] findall_emotion_items [OF assms(2)] by simp

lemma emotion_entries_empty [simp]: "emotion_entries ms = [] \<longleftrightarrow> ms = []"
  by (simp add: emotion_entries_def)

lemma frames_loop_acc:
  "frames_loop ms acc = acc @ map block_frame (filter well_formed_block ms)"
proof (induction ms arbitrary: acc)
  case Nil
  then show ?case by simp
next
  case (Cons m ms)
  obtain t e where m: "m = (t, e)" by (cases m) auto
  show ?case
  proof (cases "py_float t")
    case None
    then show ?thesis
      using Cons.IH [of acc] m by (simp add: well_formed_block_def)
  next
    case (Some v)
    show ?thesis
    proof (cases "findall_emotion e = []")
      case True
      then show ?thesis
        using Cons.IH [of acc] m Some by (simp add: well_formed_block_def)
    next
      case False
      then show ?thesis
        using Cons.IH [of "acc @ [\<lparr>f_time = Some v,
            f_emotions = Some (emotion_entries (findall_emotion e))\<rparr>]"] m Some
        by (simp add: well_formed_block_def block_frame_def)
    qed
  qed
qed

lemma extract_as_filter:
  "extract_emotion_frames raw =
     map (\<lambda>(t, e). \<lparr>f_time = py_float t,
                     f_emotions = Some (map (\<lambda>(n, v). \<lparr>e_name = Some n,
                        e_score = Some (case py_float v of None \<Rightarrow> 0 | Some x \<Rightarrow> x)\<rparr>)
                          (findall_emotion e))\<rparr>)
       (filter (\<lambda>(t, e). py_float t \<noteq> None \<and> findall_emotion e \<noteq> []) (findall_face raw))"
proof -
  have a: "block_frame = (\<lambda>(t, e). \<lparr>f_time = py_float t,
                     f_emotions = Some (map (\<lambda>(n, v). \<lparr>e_name = Some n,
                        e_score = Some (case py_float v of None \<Rightarrow> 0 | Some x \<Rightarrow> x)\<rparr>)
                          (findall_emotion e))\<rparr>)"
    by (auto simp: block_frame_def emotion_entries_def fun_eq_iff)
  have b: "well_formed_block = (\<lambda>(t, e). py_float t \<noteq> None \<and> findall_emotion e \<noteq> [])"
    by (auto simp: well_formed_block_def fun_eq_iff)
  show ?thesis
    unfolding a [symmetric] b [symmetric]
    by (simp add: extract_emotion_frames_def frames_loop_acc)
qed

lemma extract_face_text:
  assumes "\<forall>(sep, b) \<in> set items. CHR ''F'' \<notin> set sep \<and> face_block_ok b"
    and "CHR ''F'' \<notin> set tail"
  shows "extract_emotion_frames (face_text items tail) =
     map (\<lambda>(sep, b). \<lparr>f_time = py_float (fb_time b),
                       f_emotions = Some (map (\<lambda>(n, v). \<lparr>e_name = Some n,
                          e_score = Some (case py_float v of None \<Rightarrow> 0 | Some x \<Rightarrow> x)\<rparr>)
                            (findall_emotion (fb_emotions b)))\<rparr>)
       (filter (\<lambda>(sep, b). py_float (fb_time b) \<noteq> None \<and> findall_emotion (fb_emotions b) \<noteq> [])
          items)"
  unfolding extract_as_filter findall_face_text [OF assms]
  by (simp add: filter_map comp_def case_prod_unfold)

text \<open>
  C5. \<open>extract_emotion_frames\<close> returns, in the order of the matched blocks, exactly
  one frame for every block whose time parses as a number and whose emotion list yields
  at least one emotion; the frame carries the parsed time and one emotion per match of
  the emotion pattern, with score 0 where the score does not parse. No returned frame
  lacks a time or has an empty emotion list. A block whose time does not parse, or which
  yields no emotion, contributes nothing and the blocks before and after it are
  processed as if it were absent. For a raw text made of well-formed frame blocks
  separated by text without the letter F, the matches are the blocks' times and emotion
  lists in input order and the frames are those of the blocks that qualify; the same
  holds for the emotions of an emotion list. The two patterns match exactly the texts of
  the shapes written out in \<open>face_block_text\<close> and \<open>emotion_block_text\<close>;
  \<open>float\<close> gives a digit string its decimal value, with at most one dot, and fails on
  every other string of digits and dots. The raw text is read from the key
  \<open>raw_result\<close>, at the top level or under \<open>result\<close>.
\<close>

theorem extract_emotion_frames_spec:
  "extract_emotion_frames raw =
     map (\<lambda>(t, e). \<lparr>f_time = py_float t,
                     f_emotions = Some (map (\<lambda>(n, v). \<lparr>e_name = Some n,
                        e_score = Some (case py_float v of None \<Rightarrow> 0 | Some x \<Rightarrow> x)\<rparr>)
                          (findall_emotion e))\<rparr>)
       (filter (\<lambda>(t, e). py_float t \<noteq> None \<and> findall_emotion e \<noteq> []) (findall_face raw))
   \<and> (\<forall>f \<in> set (extract_emotion_frames raw).
         f_time f \<noteq> None \<and> f_emotions f \<noteq> None \<and> f_emotions f \<noteq> Some [])
   \<and> (py_float t = None \<or> findall_emotion e = [] \<longrightarrow>
         frames_loop (ms1 @ (t, e) # ms2) [] = frames_loop ms1 [] @ frames_loop ms2 [])
   \<and> ((\<forall>(sep, b) \<in> set items. CHR ''F'' \<notin> set sep \<and> face_block_ok b)
        \<and> CHR ''F'' \<notin> set tail \<longrightarrow>
         findall_face (face_text items tail)
           = map (\<lambda>(sep, b). (fb_time b, fb_emotions b)) items
         \<and> extract_emotion_frames (face_text items tail) =
             map (\<lambda>(sep, b). \<lparr>f_time = py_float (fb_time b),
                  f_emotions = Some (map (\<lambda>(n, v). \<lparr>e_name = Some n,
                     e_score = Some (case py_float v of None \<Rightarrow> 0 | Some x \<Rightarrow> x)\<rparr>)
                       (findall_emotion (fb_emotions b)))\<rparr>)
               (filter (\<lambda>(sep, b). py_float (fb_time b) \<noteq> None
                                    \<and> findall_emotion (fb_emotions b) \<noteq> []) items))
   \<and> (CHR ''E'' \<notin> set lead
        \<and> (\<forall>(b, sep) \<in> set eitems. emotion_block_ok b \<and> CHR ''E'' \<notin> set sep
               \<and> (sep \<noteq> [] \<longrightarrow> \<not> is_time_char (hd sep))) \<longrightarrow>
         findall_emotion (emotion_list_text lead eitems)
           = map (\<lambda>(b, sep). (eb_name b, eb_score b)) eitems)
   \<and> (match_face s = Some (t', e', rest)
        \<longleftrightarrow> (\<exists>b. face_block_ok b \<and> fb_time b = t' \<and> fb_emotions b = e'
                 \<and> s = face_block_text b @ rest))
   \<and> (match_face s = Some (t', e', rest) \<longrightarrow> findall_face s = (t', e') # findall_face rest)
   \<and> (match_face (c # cs) = None \<longrightarrow> findall_face (c # cs) = findall_face cs)
   \<and> findall_face [] = []
   \<and> (match_emotion s = Some (n, v, rest)
        \<longleftrightarrow> (\<exists>b. emotion_block_ok b \<and> eb_name b = n \<and> eb_score b = v
                 \<and> s = emotion_block_text b @ rest
                 \<and> (rest \<noteq> [] \<longrightarrow> \<not> is_time_char (hd rest))))
   \<and> (match_emotion s = Some (n, v, rest) \<longrightarrow> findall_emotion s = (n, v) # findall_emotion rest)
   \<and> (match_emotion (c # cs) = None \<longrightarrow> findall_emotion (c # cs) = findall_emotion cs)
   \<and> findall_emotion [] = []
   \<and> (list_all is_digit a \<and> a \<noteq> [] \<longrightarrow> py_float a = Some (real_of_int (decimal a)))
   \<and> (list_all is_digit a \<and> list_all is_digit d \<and> (a \<noteq> [] \<or> d \<noteq> []) \<longrightarrow>
         py_float (a @ ''.'' @ d)
           = Some (real_of_int (decimal a) + real_of_int (decimal d) / 10 ^ length d))
   \<and> (py_float s \<noteq> None \<longrightarrow>
         (\<exists>a d. list_all is_digit a \<and> list_all is_digit d
            \<and> ((s = a \<and> a \<noteq> []) \<or> (s = a @ ''.'' @ d \<and> (a \<noteq> [] \<or> d \<noteq> [])))))
   \<and> (is_digit x \<longleftrightarrow> x \<in> set ''0123456789'')
   \<and> (is_time_char x \<longleftrightarrow> x \<in> set ''0123456789.'')
   \<and> (is_space x \<longleftrightarrow> x \<in> {CHR 0x09, CHR 0x0A, CHR 0x0B, CHR 0x0C, CHR 0x0D,
                              CHR 0x1C, CHR 0x1D, CHR 0x1E, CHR 0x1F, CHR '' ''})
   \<and> extract_emotion_frames_from_raw \<lparr>h_raw_result = Some raw, h_result_raw_result = None\<rparr>
       = extract_emotion_frames raw
   \<and> extract_emotion_frames_from_raw
         \<lparr>h_raw_result = None, h_result_raw_result = Some (Some raw)\<rparr>
       = extract_emotion_frames raw"
proof -
  have 1: "extract_emotion_frames raw =
     map (\<lambda>(t, e). \<lparr>f_time = py_float t,
                     f_emotions = Some (map (\<lambda>(n, v). \<lparr>e_name = Some n,
                        e_score = Some (case py_float v of None \<Rightarrow> 0 | Some x \<Rightarrow> x)\<rparr>)
                          (findall_emotion e))\<rparr>)
       (filter (\<lambda>(t, e). py_float t \<noteq> None \<and> findall_emotion e \<noteq> []) (findall_face raw))"
    by (rule extract_as_filter)
  have 2: "\<forall>f \<in> set (extract_emotion_frames raw).
         f_time f \<noteq> None \<and> f_emotions f \<noteq> None \<and> f_emotions f \<noteq> Some []"
    unfolding 1 by auto
  have 3: "py_float t = None \<or> findall_emotion e = [] \<longrightarrow>
         frames_loop (ms1 @ (t, e) # ms2) [] = frames_loop ms1 [] @ frames_loop ms2 []"
    by (auto simp: frames_loop_acc well_formed_block_def)
  have 4: "(\<forall>(sep, b) \<in> set items. CHR ''F'' \<notin> set sep \<and> face_block_ok b)
        \<and> CHR ''F'' \<notin> set tail \<longrightarrow>
         findall_face (face_text items tail)
           = map (\<lambda>(sep, b). (fb_time b, fb_emotions b)) items
         \<and> extract_emotion_frames (face_text items tail) =
             map (\<lambda>(sep, b). \<lparr>f_time = py_float (fb_time b),
                  f_emotions = Some (map (\<lambda>(n, v). \<lparr>e_name = Some n,
                     e_score = Some (case py_float v of None \<Rightarrow> 0 | Some x \<Rightarrow> x)\<rparr>)
                       (findall_emotion (fb_emotions b)))\<rparr>)
               (filter (\<lambda>(sep, b). py_float (fb_time b) \<noteq> None
                                    \<and> findall_emotion (fb_emotions b) \<noteq> []) items)"
    using findall_face_text [of items tail] extract_face_text [of items tail] by blast
  have 5: "CHR ''E'' \<notin> set lead
        \<and> (\<forall>(b, sep) \<in> set eitems. emotion_block_ok b \<and> CHR ''E'' \<notin> set sep
               \<and> (sep \<noteq> [] \<longrightarrow> \<not> is_time_char (hd sep))) \<longrightarrow>
         findall_emotion (emotion_list_text lead eitems)
           = map (\<lambda>(b, sep). (eb_name b, eb_score b)) eitems"
    using findall_emotion_text [of lead eitems] by blast
  have 6: "match_face s = Some (t', e', rest)
        \<longleftrightarrow> (\<exists>b. face_block_ok b \<and> fb_time b = t' \<and> fb_emotions b = e'
                 \<and> s = face_block_text b @ rest)"
    by (rule match_face_iff)
  have 7: "match_face s = Some (t', e', rest) \<longrightarrow> findall_face s = (t', e') # findall_face rest"
    using findall_face_match by blast
  have 8: "match_face (c # cs) = None \<longrightarrow> findall_face (c # cs) = findall_face cs"
    by simp
  have 9: "match_emotion s = Some (n, v, rest)
        \<longleftrightarrow> (\<exists>b. emotion_block_ok b \<and> eb_name b = n \<and> eb_score b = v
                 \<and> s = emotion_block_text b @ rest
                 \<and> (rest \<noteq> [] \<longrightarrow> \<not> is_time_char (hd rest)))"
    by (rule match_emotion_iff)
  have 10: "match_emotion s = Some (n, v, rest) \<longrightarrow>
      findall_emotion s = (n, v) # findall_emotion rest"
    using findall_emotion_match by blast
  have 11: "match_emotion (c # cs) = None \<longrightarrow> findall_emotion (c # cs) = findall_emotion cs"
    by simp
  have 12: "list_all is_digit a \<and> a \<noteq> [] \<longrightarrow> py_float a = Some (real_of_int (decimal a))"
    using py_float_int by blast
  have 13: "list_all is_digit a \<and> list_all is_digit d \<and> (a \<noteq> [] \<or> d \<noteq> []) \<longrightarrow>
         py_float (a @ ''.'' @ d)
           = Some (real_of_int (decimal a) + real_of_int (decimal d) / 10 ^ length d)"
    using py_float_point by blast
  have 14: "py_float s \<noteq> None \<longrightarrow>
         (\<exists>a d. list_all is_digit a \<and> list_all is_digit d
            \<and> ((s = a \<and> a \<noteq> []) \<or> (s = a @ ''.'' @ d \<and> (a \<noteq> [] \<or> d \<noteq> []))))"
    using py_float_shape [of s] by blast
  have 15: "is_digit x \<longleftrightarrow> x \<in> set ''0123456789''"
    by (rule is_digit_chars)
  have 16: "is_time_char x \<longleftrightarrow> x \<in> set ''0123456789.''"
    unfolding is_time_char_def is_digit_chars by auto
  have 17: "is_space x \<longleftrightarrow> x \<in> {CHR 0x09, CHR 0x0A, CHR 0x0B, CHR 0x0C, CHR 0x0D,
                              CHR 0x1C, CHR 0x1D, CHR 0x1E, CHR 0x1F, CHR '' ''}"
    by (rule is_space_chars)
  have 18: "extract_emotion_frames_from_raw
        \<lparr>h_raw_result = Some raw, h_result_raw_result = None\<rparr> = extract_emotion_frames raw"
    by (simp add: extract_emotion_frames_from_raw_def)
  have 19: "extract_emotion_frames_from_raw
        \<lparr>h_raw_result = None, h_result_raw_result = Some (Some raw)\<rparr>
      = extract_emotion_frames raw"
    by (simp add: extract_emotion_frames_from_raw_def)
  have 20: "findall_face [] = []" "findall_emotion [] = []"
    by simp_all
  show ?thesis
    by (intro conjI 1 2 3 4 5 6 7 8 9 10 11 12 13 14 15 16 17 18 19 20)
qed

theorem extract_emotion_frames_spec_witness:
  "extract_emotion_frames
     ''FacePrediction(frame=0, time=0.0, emotions=[EmotionScore(name='Joy', score=0.5), EmotionScore(name='Anger', score=0.1)]) FacePrediction(frame=1, time=1.0, emotions=[]) FacePrediction(frame=2, time=1.2.3, emotions=[EmotionScore(name='Joy', score=0.9)]) FacePrediction(frame=3, time=3.5, emotions=[EmotionScore(name='Fear', score=1)])''
   = [\<lparr>f_time = Some 0, f_emotions = Some [\<lparr>e_name = Some ''Joy'', e_score = Some (1 / 2)\<rparr>, \<lparr>e_name = Some ''Anger'', e_score = Some (1 / 10)\<rparr>]\<rparr>,
      \<lparr>f_time = Some (7 / 2), f_emotions = Some [\<lparr>e_name = Some ''Fear'', e_score = Some 1\<rparr>]\<rparr>]
   \<and> findall_emotion ''EmotionScore(name='Joy', score=0.5), EmotionScore(name='Anger', score=0.1)''
     = [(''Joy'', ''0.5''), (''Anger'', ''0.1'')]
   \<and> py_float ''3.5'' = Some (7 / 2)
   \<and> frames_loop ([(''0.5'', ''EmotionScore(name='Joy', score=0.9)'')] @ (''1.2.3'', ''EmotionScore(name='Joy', score=0.9)'') # [(''2'', ''EmotionScore(name='Joy', score=0.9)'')]) []
     = frames_loop [(''0.5'', ''EmotionScore(name='Joy', score=0.9)'')] [] @ frames_loop [(''2'', ''EmotionScore(name='Joy', score=0.9)'')] []"
proof -
  let ?b0 = "\<lparr>fb_frame = ''0'', fb_space = '' '', fb_time = ''0.0'', fb_between = '', '', fb_emotions = ''EmotionScore(name='Joy', score=0.5), EmotionScore(name='Anger', score=0.1)''\<rparr>"
  let ?b1 = "\<lparr>fb_frame = ''1'', fb_space = '' '', fb_time = ''1.0'', fb_between = '', '', fb_emotions = []\<rparr>"
  let ?b2 = "\<lparr>fb_frame = ''2'', fb_space = '' '', fb_time = ''1.2.3'', fb_between = '', '', fb_emotions = ''EmotionScore(name='Joy', score=0.9)''\<rparr>"
  let ?b3 = "\<lparr>fb_frame = ''3'', fb_space = '' '', fb_time = ''3.5'', fb_between = '', '', fb_emotions = ''EmotionScore(name='Fear', score=1)''\<rparr>"
  let ?items = "[([], ?b0), ('') '', ?b1), ('') '', ?b2), ('') '', ?b3)]"
  let ?eitems = "[(\<lparr>eb_open = CHR 0x27, eb_name = ''Joy'', eb_close = CHR 0x27, eb_space = '' '', eb_score = ''0.5''\<rparr>, ''), ''),
      (\<lparr>eb_open = CHR 0x27, eb_name = ''Anger'', eb_close = CHR 0x27, eb_space = '' '', eb_score = ''0.1''\<rparr>, '')'')]"
  let ?E = "''EmotionScore(name='Joy', score=0.9)''"
  note th = extract_emotion_frames_spec [where items = ?items and tail = "'')''"
      and lead = "[]" and eitems = ?eitems and a = "''3''" and d = "''5''"
      and t = "''1.2.3''" and e = ?E and ?ms1.0 = "[(''0.5'', ?E)]" and ?ms2.0 = "[(''2'', ?E)]"]
  have "find_literal ''emotions=['' ('', '' @ ''emotions=['') = Some ('', '', [])"
    by code_simp
  from find_literal_first [OF this]
  have first: "\<forall>a c. '', '' @ ''emotions=['' = a @ ''emotions=['' @ c \<longrightarrow> a = '', ''"
    by simp
  have ok: "face_block_ok ?b0" "face_block_ok ?b1" "face_block_ok ?b2" "face_block_ok ?b3"
    using first by (simp_all add: face_block_ok_def is_digit_def is_space_def is_time_char_def)
  have h: "(\<forall>(sep, b) \<in> set ?items. CHR ''F'' \<notin> set sep \<and> face_block_ok b)
      \<and> CHR ''F'' \<notin> set '')''"
    using ok by simp
  have raw: "face_text ?items '')''
      = ''FacePrediction(frame=0, time=0.0, emotions=[EmotionScore(name='Joy', score=0.5), EmotionScore(name='Anger', score=0.1)]) FacePrediction(frame=1, time=1.0, emotions=[]) FacePrediction(frame=2, time=1.2.3, emotions=[EmotionScore(name='Joy', score=0.9)]) FacePrediction(frame=3, time=3.5, emotions=[EmotionScore(name='Fear', score=1)])''"
    by (simp add: face_text_def face_block_text_def)
  have v: "map (\<lambda>(sep, b). \<lparr>f_time = py_float (fb_time b),
                  f_emotions = Some (map (\<lambda>(n, v). \<lparr>e_name = Some n,
                     e_score = Some (case py_float v of None \<Rightarrow> 0 | Some x \<Rightarrow> x)\<rparr>)
                       (findall_emotion (fb_emotions b)))\<rparr>)
      (filter (\<lambda>(sep, b). py_float (fb_time b) \<noteq> None
                           \<and> findall_emotion (fb_emotions b) \<noteq> []) ?items)
      = [\<lparr>f_time = Some 0, f_emotions = Some [\<lparr>e_name = Some ''Joy'', e_score = Some (1 / 2)\<rparr>, \<lparr>e_name = Some ''Anger'', e_score = Some (1 / 10)\<rparr>]\<rparr>,
         \<lparr>f_time = Some (7 / 2), f_emotions = Some [\<lparr>e_name = Some ''Fear'', e_score = Some 1\<rparr>]\<rparr>]"
    by code_simp
  from th [THEN conjunct2, THEN conjunct2, THEN conjunct2, THEN conjunct1, THEN mp, OF h]
  have a: "extract_emotion_frames
     ''FacePrediction(frame=0, time=0.0, emotions=[EmotionScore(name='Joy', score=0.5), EmotionScore(name='Anger', score=0.1)]) FacePrediction(frame=1, time=1.0, emotions=[]) FacePrediction(frame=2, time=1.2.3, emotions=[EmotionScore(name='Joy', score=0.9)]) FacePrediction(frame=3, time=3.5, emotions=[EmotionScore(name='Fear', score=1)])''
      = [\<lparr>f_time = Some 0, f_emotions = Some [\<lparr>e_name = Some ''Joy'', e_score = Some (1 / 2)\<rparr>, \<lparr>e_name = Some ''Anger'', e_score = Some (1 / 10)\<rparr>]\<rparr>,
         \<lparr>f_time = Some (7 / 2), f_emotions = Some [\<lparr>e_name = Some ''Fear'', e_score = Some 1\<rparr>]\<rparr>]"
    unfolding raw v by blast
  have he: "CHR ''E'' \<notin> set []
      \<and> (\<forall>(b, sep) \<in> set ?eitems. emotion_block_ok b \<and> CHR ''E'' \<notin> set sep
             \<and> (sep \<noteq> [] \<longrightarrow> \<not> is_time_char (hd sep)))"
    by (simp add: emotion_block_ok_def is_quote_def is_space_def is_time_char_def is_digit_def)
  have etext: "emotion_list_text [] ?eitems = ''EmotionScore(name='Joy', score=0.5), EmotionScore(name='Anger', score=0.1)''"
    by (simp add: emotion_list_text_def emotion_block_text_def)
  from th [THEN conjunct2, THEN conjunct2, THEN conjunct2, THEN conjunct2, THEN conjunct1,
      THEN mp, OF he]
  have b: "findall_emotion ''EmotionScore(name='Joy', score=0.5), EmotionScore(name='Anger', score=0.1)''
      = [(''Joy'', ''0.5''), (''Anger'', ''0.1'')]"
    unfolding etext by simp
  have hp: "list_all is_digit ''3'' \<and> list_all is_digit ''5'' \<and> (''3'' \<noteq> [] \<or> ''5'' \<noteq> [])"
    by (simp add: is_digit_def)
  have dec: "decimal ''3'' = 3" "decimal ''5'' = 5"
    by (simp_all add: decimal_def)
  from th [THEN conjunct2, THEN conjunct2, THEN conjunct2, THEN conjunct2, THEN conjunct2,
      THEN conjunct2, THEN conjunct2, THEN conjunct2, THEN conjunct2, THEN conjunct2,
      THEN conjunct2, THEN conjunct2, THEN conjunct2, THEN conjunct2, THEN conjunct1,
      THEN mp, OF hp]
  have c: "py_float ''3.5'' = Some (7 / 2)"
    by (simp add: dec)
  have h1: "py_float ''1.2.3'' = None \<or> findall_emotion ?E = []"
    by code_simp
  from th [THEN conjunct2, THEN conjunct2, THEN conjunct1, THEN mp, OF h1]
  have d: "frames_loop ([(''0.5'', ?E)] @ (''1.2.3'', ?E) # [(''2'', ?E)]) []
      = frames_loop [(''0.5'', ?E)] [] @ frames_loop [(''2'', ?E)] []" .
  from a b c d show ?thesis
    by blast
qed

end
